theory Spec2Isabelle
  imports Complex_Main "HOL-Library.Word" "HOL-Library.Signed_Division"
begin

unbundle bit_operations_syntax

section \<open>Machine integers of the codec\<close>

text \<open>
  The codec (imutils.cpp) works on \<open>uint8_t\<close> pixels, \<open>int16_t\<close> samples and
  coefficients, and \<open>int32_t\<close> intermediates. C promotes every operand narrower than
  \<open>int\<close> to \<open>int\<close> before arithmetic and converts back on assignment; both steps are
  written out: \<open>int_of16\<close> is the promotion (sign extension), \<open>to16\<close> the conversion
  to \<open>int16_t\<close> (the low 16 bits). \<open>asr n\<close> is \<open>>> n\<close> on a signed \<open>int\<close>.
\<close>

type_synonym u8 = "8 word"
type_synonym i16 = "16 word"
type_synonym i32 = "32 word"

definition int_of16 :: "i16 \<Rightarrow> i32" where
  "int_of16 x = scast x"

definition to16 :: "i32 \<Rightarrow> i16" where
  "to16 x = ucast x"

definition asr :: "nat \<Rightarrow> i32 \<Rightarrow> i32" where
  "asr n x = signed_drop_bit n x"

text \<open>
  Division of two \<open>int\<close> values truncates towards zero in C (\<open>sdiv\<close> on integers).
  The callers check the divisor, which must not be zero.
\<close>

definition cdiv :: "i32 \<Rightarrow> i32 \<Rightarrow> i32" where
  "cdiv a b = word_of_int (sint a sdiv sint b)"

text \<open>\<open>clamp\<close>: a value is cut to [0, 255] and returned as a byte.\<close>

definition clamp :: "i32 \<Rightarrow> u8" where
  "clamp v = (if v <s 0 then 0 else if 255 <s v then 255 else ucast v)"

text \<open>The condition under which \<open>clamp\<close> does not return its argument unchanged.\<close>

definition clamps :: "i32 \<Rightarrow> bool" where
  "clamps v = (v <s 0 \<or> 255 <s v)"

section \<open>Colour-space conversion\<close>

text \<open>
  One iteration of the loop of \<open>rgba_to_ycocga\<close>: the three colour bytes are read into
  \<open>int16_t\<close> variables, and Co, t, Cg, Y are each computed in \<open>int\<close> and stored as
  \<open>int16_t\<close>. The triple is written as Y, Co, Cg.
\<close>

definition ycocg_of_rgb :: "u8 \<Rightarrow> u8 \<Rightarrow> u8 \<Rightarrow> i16 list" where
  "ycocg_of_rgb R G B =
     (let r = (ucast R :: i16);
          g = (ucast G :: i16);
          b = (ucast B :: i16);
          Co = to16 (int_of16 r - int_of16 b);
          t  = to16 (int_of16 b + asr 1 (int_of16 Co));
          Cg = to16 (int_of16 g - int_of16 t);
          Y  = to16 (int_of16 t + asr 1 (int_of16 Cg))
      in [Y, Co, Cg])"

text \<open>
  \<open>rgba_to_ycocga\<close>: 256 iterations; iteration \<open>i\<close> reads bytes \<open>4i .. 4i+3\<close> of the
  input, appends three samples to the YCoCg buffer and one byte to the alpha buffer.
  The result is the pair (YCoCg, alpha). The input buffer holds 1024 bytes.
\<close>

definition rgba_to_ycocga :: "u8 list \<Rightarrow> i16 list \<times> u8 list" where
  "rgba_to_ycocga rgba =
     (concat (map (\<lambda>i. ycocg_of_rgb (rgba ! (4 * i)) (rgba ! (4 * i + 1)) (rgba ! (4 * i + 2)))
                  [0..<256]),
      map (\<lambda>i. rgba ! (4 * i + 3)) [0..<256])"

text \<open>
  One iteration of \<open>ycocga_to_rgba\<close> before clamping: the values of the \<open>int16_t\<close>
  variables r, g, b.
\<close>

definition rgb_of_ycocg :: "i16 \<Rightarrow> i16 \<Rightarrow> i16 \<Rightarrow> i16 \<times> i16 \<times> i16" where
  "rgb_of_ycocg y co cg =
     (let t = to16 (int_of16 y - asr 1 (int_of16 cg));
          g = to16 (int_of16 cg + int_of16 t);
          b = to16 (int_of16 t - asr 1 (int_of16 co));
          r = to16 (int_of16 b + int_of16 co)
      in (r, g, b))"

definition ycocga_to_rgba :: "i16 list \<Rightarrow> u8 list \<Rightarrow> u8 list" where
  "ycocga_to_rgba ycocg alpha =
     concat (map (\<lambda>i. case rgb_of_ycocg (ycocg ! (3 * i)) (ycocg ! (3 * i + 1)) (ycocg ! (3 * i + 2))
                       of (r, g, b) \<Rightarrow>
                         [clamp (int_of16 r), clamp (int_of16 g), clamp (int_of16 b), alpha ! i])
                 [0..<256])"

text \<open>
  The lifting steps of \<open>rgba_to_ycocga\<close> on unbounded integers, used to state what the
  16-bit code computes.
\<close>

definition ycocg_int :: "int \<Rightarrow> int \<Rightarrow> int \<Rightarrow> int list" where
  "ycocg_int r g b = (let co = r - b; t = b + co div 2; cg = g - t in [t + cg div 2, co, cg])"

section \<open>Block sampler\<close>

text \<open>
  \<open>subblock\<close> (the \<open>int16_t\<close> instance): the 8x8 quadrant (x, y) of one channel of the
  16x16 YCoCg block. \<open>x\<close> becomes the offset \<open>x * 24 + channel\<close> within a row of 48
  samples, \<open>y\<close> the first row \<open>y * 8\<close>; row \<open>i\<close> of the result is read at
  \<open>src[0], src[3], .., src[21]\<close> from \<open>src = &YCoCg[(y + i) * 48] + x\<close>.
\<close>

definition subblock :: "i16 list \<Rightarrow> nat \<Rightarrow> nat \<Rightarrow> nat \<Rightarrow> i16 list" where
  "subblock YCoCg x y channel =
     (let x' = x * 24 + channel; y' = y * 8
      in concat (map (\<lambda>i. map (\<lambda>k. YCoCg ! ((y' + i) * 48 + x' + k * 3)) [0..<8]) [0..<8]))"

text \<open>
  \<open>subsample\<close> (the \<open>int16_t\<close> instance): the loop runs over the eight row pairs
  \<open>i = 0, 2, .., 14\<close>; each of its eight statements adds four samples in \<open>int\<close>, shifts
  the sum right by two and stores it as \<open>int16_t\<close>. Statement \<open>k\<close> reads columns
  \<open>2k\<close> and \<open>2k + 1\<close> of rows \<open>i\<close> and \<open>i + 1\<close>.
\<close>

definition subsample :: "i16 list \<Rightarrow> nat \<Rightarrow> i16 list" where
  "subsample YCoCg channel =
     concat (map (\<lambda>r.
       let i = 2 * r;
           src1 = (i + 0) * 48 + channel;
           src2 = (i + 1) * 48 + channel
       in map (\<lambda>k. to16 (asr 2 (int_of16 (YCoCg ! (src1 + (2 * k) * 3))
                                + int_of16 (YCoCg ! (src1 + (2 * k + 1) * 3))
                                + int_of16 (YCoCg ! (src2 + (2 * k) * 3))
                                + int_of16 (YCoCg ! (src2 + (2 * k + 1) * 3)))))
              [0..<8])
       [0..<8])"

text \<open>
  \<open>merge_blocks\<close>: four source pointers walk the four packed 8x8 blocks, four
  destination pointers the four quadrants of the 16x16 block; iteration (i, j) stores one
  sample through each destination pointer. \<open>dst\<close> is the content of the output buffer
  before the call.
\<close>

definition merge_blocks :: "'a list \<Rightarrow> 'a list \<Rightarrow> 'a list" where
  "merge_blocks dst src =
     fold (\<lambda>i d. fold (\<lambda>j d. d[i * 16 + j := src ! (i * 8 + j),
                              8 + i * 16 + j := src ! (64 + i * 8 + j),
                              128 + i * 16 + j := src ! (128 + i * 8 + j),
                              136 + i * 16 + j := src ! (192 + i * 8 + j)])
                      [0..<8] d)
          [0..<8] dst"

text \<open>The 16x16 plane of one channel of a YCoCg block, in row-major order.\<close>

definition plane :: "i16 list \<Rightarrow> nat \<Rightarrow> i16 list" where
  "plane YCoCg channel = map (\<lambda>p. YCoCg ! (p * 3 + channel)) [0..<256]"

text \<open>
  A sequence of stores \<open>buf[p] = v\<close>, applied in order. It is used to state what the
  loops that write through moving pointers leave in a buffer.
\<close>

definition apply_writes :: "(nat \<times> 'a) list \<Rightarrow> 'a list \<Rightarrow> 'a list" where
  "apply_writes ws d = fold (\<lambda>w d. d[fst w := snd w]) ws d"

text \<open>The stores of \<open>merge_blocks\<close>, in program order.\<close>

definition merge_writes :: "'a list \<Rightarrow> (nat \<times> 'a) list" where
  "merge_writes src =
     concat (map (\<lambda>i. concat (map (\<lambda>j. [(i * 16 + j, src ! (i * 8 + j)),
                                         (8 + i * 16 + j, src ! (64 + i * 8 + j)),
                                         (128 + i * 16 + j, src ! (128 + i * 8 + j)),
                                         (136 + i * 16 + j, src ! (192 + i * 8 + j))])
                                  [0..<8]))
                 [0..<8])"

text \<open>
  The source index that \<open>merge_blocks\<close> copies to position \<open>q\<close> of the 16x16 block:
  block number \<open>2 * (q div 128) + (q mod 16) div 8\<close>, row \<open>(q div 16) mod 8\<close>, column
  \<open>q mod 8\<close>.
\<close>

definition merge_src :: "nat \<Rightarrow> nat" where
  "merge_src q = 64 * (2 * (q div 128) + (q mod 16) div 8) + 8 * ((q div 16) mod 8) + q mod 8"

text \<open>
  The subsampled value as the specification words it: the four samples of the 2x2
  neighbourhood of output (i, j), rows \<open>2i, 2i + 1\<close> and columns \<open>2j, 2j + 1\<close> of the
  16x16 block (sample (row, col) of a channel is entry \<open>(row * 16 + col) * 3 + channel\<close>),
  are added to a bias that alternates 0, 2, 0, 2, .. across the output columns, and the sum
  is shifted right by two.
\<close>

definition subsample_bias :: "nat \<Rightarrow> i32" where
  "subsample_bias j = (if even j then 0 else 2)"

definition subsample_spec :: "i16 list \<Rightarrow> nat \<Rightarrow> nat \<Rightarrow> nat \<Rightarrow> i16" where
  "subsample_spec YCoCg channel i j =
     (let v00 = YCoCg ! (((2 * i) * 16 + 2 * j) * 3 + channel);
          v01 = YCoCg ! (((2 * i) * 16 + (2 * j + 1)) * 3 + channel);
          v10 = YCoCg ! (((2 * i + 1) * 16 + 2 * j) * 3 + channel);
          v11 = YCoCg ! (((2 * i + 1) * 16 + (2 * j + 1)) * 3 + channel)
      in to16 (asr 2 (int_of16 v00 + int_of16 v01 + int_of16 v10 + int_of16 v11 + subsample_bias j)))"

section \<open>Quantization tables\<close>

definition qmin :: "i32 \<Rightarrow> i32 \<Rightarrow> i32" where
  "qmin a b = (if a <s b then a else b)"

definition qmax :: "i32 \<Rightarrow> i32 \<Rightarrow> i32" where
  "qmax a b = (if b <s a then a else b)"

text \<open>
  \<open>quantization_table\<close>: the quality (an \<open>int\<close>) is clamped to [1, 100]; the scale
  \<open>q\<close> and every intermediate \<open>c\<close> are \<open>int16_t\<close> variables, the arithmetic is done in
  \<open>int\<close> with C's truncating division, and the result of \<open>qmin (qmax (c, 1), 255)\<close> is
  stored as \<open>int16_t\<close>.
\<close>

definition quantization_table :: "i16 list \<Rightarrow> i32 \<Rightarrow> i16 list" where
  "quantization_table Qbase quality0 =
     (let quality1 = (if quality0 <s 1 then 1 else quality0);
          quality = (if 100 <s quality1 then 100 else quality1);
          q = to16 (if quality <s 50 then cdiv 5000 quality else 200 - quality * 2)
      in map (\<lambda>i. let c = to16 (cdiv (int_of16 (Qbase ! i) * int_of16 q + 50) 100)
                  in to16 (qmin (qmax (int_of16 c) 1) 255))
             [0..<64])"

text \<open>The JPEG base tables.\<close>

definition JPEGLumaQuant :: "i16 list" where
  "JPEGLumaQuant =
    [16,  11,  12,  14,   12,  10,  16,  14,
     13,  14,  18,  17,   16,  19,  24,  40,
     26,  24,  22,  22,   24,  49,  35,  37,
     29,  40,  58,  51,   61,  60,  57,  51,
     56,  55,  64,  72,   92,  78,  64,  68,
     87,  69,  55,  56,   80, 109,  81,  87,
     95,  98, 103, 104,  103,  62,  77, 113,
     121,112, 100, 120,   92, 101, 103,  99]"

definition JPEGChromaQuant :: "i16 list" where
  "JPEGChromaQuant =
    [17,  18,  18,  24,   21,  24,  47,  26,
     26,  47,  99,  66,   56,  66,  99,  99,
     99,  99,  99,  99,   99,  99,  99,  99,
     99,  99,  99,  99,   99,  99,  99,  99,
     99,  99,  99,  99,   99,  99,  99,  99,
     99,  99,  99,  99,   99,  99,  99,  99,
     99,  99,  99,  99,   99,  99,  99,  99,
     99,  99,  99,  99,   99,  99,  99,  99]"

definition quantization_table_luma :: "i32 \<Rightarrow> i16 list" where
  "quantization_table_luma quality = quantization_table JPEGLumaQuant quality"

definition quantization_table_chroma :: "i32 \<Rightarrow> i16 list" where
  "quantization_table_chroma quality = quantization_table JPEGChromaQuant quality"

text \<open>
  The quantization table as the specification words it, on unbounded integers:
  the quality is clamped to [1, 100], \<open>q = 5000 / quality\<close> below 50 and
  \<open>200 - 2 * quality\<close> otherwise, and \<open>Q[i] = clamp ((Qbase[i] * q + 50) / 100, 1, 255)\<close>.
\<close>

definition quality_scale_spec :: "int \<Rightarrow> int" where
  "quality_scale_spec quality =
     (let k = max 1 (min 100 quality) in if k < 50 then 5000 div k else 200 - 2 * k)"

definition quantization_spec :: "int \<Rightarrow> int \<Rightarrow> int" where
  "quantization_spec b quality = max 1 (min 255 ((b * quality_scale_spec quality + 50) div 100))"

section \<open>Integer DCT kernels\<close>

text \<open>
  The 8-point forward butterfly that \<open>fdct8x8iq_base\<close> applies to every row and then to
  every column: inputs \<open>i0 .. i7\<close> and all intermediates are \<open>int32_t\<close>; the result
  lists the values stored to positions 0 .. 7, before their conversion to \<open>int16_t\<close>.
\<close>

definition fdct_butterfly :: "i32 \<Rightarrow> i32 \<Rightarrow> i32 \<Rightarrow> i32 \<Rightarrow> i32 \<Rightarrow> i32 \<Rightarrow> i32 \<Rightarrow> i32 \<Rightarrow> i32 list" where
  "fdct_butterfly i0 i1 i2 i3 i4 i5 i6 i7 =
     (let a0 = i0 + i7; a1 = i1 + i6; a2 = i2 + i5; a3 = i3 + i4;
          a4 = i0 - i7; a5 = i1 - i6; a6 = i2 - i5; a7 = i3 - i4;
          b0 = a0 + a3; b1 = a1 + a2; b2 = a0 - a3; b3 = a1 - a2;
          c0 = b0 + b1; c1 = b0 - b1;
          c2 = b2 + asr 2 b2 + asr 1 b3;
          c3 = asr 1 b2 - b3 - asr 2 b3;
          b4 = asr 2 a7 + a4 + asr 2 a4 - asr 4 a4;
          b7 = asr 2 a4 - a7 - asr 2 a7 + asr 4 a7;
          b5 = a5 + a6 - asr 2 a6 - asr 4 a6;
          b6 = a6 - a5 + asr 2 a5 + asr 4 a5;
          c4 = b4 + b5; c5 = b4 - b5; c6 = b6 + b7; c7 = b6 - b7;
          d4 = c4; d5 = c5 + c7; d6 = c5 - c7; d7 = c6
      in [c0, d4, c2, d6, c1, d5, c3, d7])"

text \<open>First loop: row \<open>r\<close> of the input is transformed and stored as row \<open>r\<close> of the output.\<close>

definition fdct_rows :: "i16 list \<Rightarrow> i16 list" where
  "fdct_rows inp =
     concat (map (\<lambda>r. map to16 (fdct_butterfly
                   (int_of16 (inp ! (8 * r))) (int_of16 (inp ! (8 * r + 1)))
                   (int_of16 (inp ! (8 * r + 2))) (int_of16 (inp ! (8 * r + 3)))
                   (int_of16 (inp ! (8 * r + 4))) (int_of16 (inp ! (8 * r + 5)))
                   (int_of16 (inp ! (8 * r + 6))) (int_of16 (inp ! (8 * r + 7)))))
                [0..<8])"

text \<open>
  Second loop: column \<open>c\<close> of the output buffer is read, transformed and stored back in
  place, at positions \<open>c, 8 + c, .., 56 + c\<close>.
\<close>

definition fdct_column :: "nat \<Rightarrow> i16 list \<Rightarrow> i16 list" where
  "fdct_column c out =
     (let v = map to16 (fdct_butterfly
                (int_of16 (out ! c)) (int_of16 (out ! (8 + c)))
                (int_of16 (out ! (16 + c))) (int_of16 (out ! (24 + c)))
                (int_of16 (out ! (32 + c))) (int_of16 (out ! (40 + c)))
                (int_of16 (out ! (48 + c))) (int_of16 (out ! (56 + c))))
      in out[c := v ! 0, 8 + c := v ! 1, 16 + c := v ! 2, 24 + c := v ! 3,
             32 + c := v ! 4, 40 + c := v ! 5, 48 + c := v ! 6, 56 + c := v ! 7])"

definition fdct_columns :: "i16 list \<Rightarrow> i16 list" where
  "fdct_columns out = fold fdct_column [0..<8] out"

text \<open>
  \<open>fdct8x8iq_base\<close>: both passes, then \<open>dst[i] /= quant[i]\<close>, a division in \<open>int\<close>
  truncating towards zero whose result is stored as \<open>int16_t\<close>. A zero divisor is
  undefined behaviour in C: the model returns \<open>None\<close>.
\<close>

definition fdct8x8iq_base :: "i16 list \<Rightarrow> i16 list \<Rightarrow> i16 list option" where
  "fdct8x8iq_base src quant =
     (let dst = fdct_columns (fdct_rows src)
      in if \<exists>i \<in> set [0..<64]. quant ! i = 0 then None
         else Some (map (\<lambda>i. to16 (cdiv (int_of16 (dst ! i)) (int_of16 (quant ! i)))) [0..<64]))"






section \<open>Encoder\<close>

text \<open>
  \<open>encode16x16i\<close>: colour conversion, four luma quadrants extracted in the order
  (0,0), (1,0), (0,1), (1,1) and transformed into \<open>&Y[0]\<close>, \<open>&Y[64]\<close>, \<open>&Y[128]\<close>,
  \<open>&Y[192]\<close>, then the two subsampled chroma blocks. The result is (Y, Co, Cg, A), or
  \<open>None\<close> when a transform divides by zero.
\<close>

definition encode16x16i ::
  "i16 list \<Rightarrow> i16 list \<Rightarrow> u8 list \<Rightarrow> (i16 list \<times> i16 list \<times> i16 list \<times> u8 list) option" where
  "encode16x16i Qluma Qchroma RGBA =
     (let YCoCg = fst (rgba_to_ycocga RGBA);
          A = snd (rgba_to_ycocga RGBA);
          samp00 = subblock YCoCg 0 0 0;
          samp10 = subblock YCoCg 1 0 0;
          samp01 = subblock YCoCg 0 1 0;
          samp11 = subblock YCoCg 1 1 0
      in Option.bind (fdct8x8iq_base samp00 Qluma) (\<lambda>Y0.
         Option.bind (fdct8x8iq_base samp10 Qluma) (\<lambda>Y64.
         Option.bind (fdct8x8iq_base samp01 Qluma) (\<lambda>Y128.
         Option.bind (fdct8x8iq_base samp11 Qluma) (\<lambda>Y192.
           let sampCo = subsample YCoCg 1;
               sampCg = subsample YCoCg 2
           in Option.bind (fdct8x8iq_base sampCo Qchroma) (\<lambda>Co.
              Option.bind (fdct8x8iq_base sampCg Qchroma) (\<lambda>Cg.
                Some (Y0 @ Y64 @ Y128 @ Y192, Co, Cg, A))))))))"

section \<open>Test blocks\<close>






section \<open>Floating point\<close>

text \<open>
  The float kernel and the tiler compute in IEEE 754 binary32 (\<open>float\<close>) and binary64
  (\<open>double\<close>). A finite floating-point value is modelled by the real number it denotes,
  and every operation is the exact operation followed by rounding to the nearest
  representable value, ties to even. A result that is not finite (overflow, division by
  zero) is \<open>None\<close>.
\<close>

text \<open>The number of binary digits of a positive integer.\<close>

function bit_length :: "int \<Rightarrow> nat" where
  "bit_length n = (if n \<le> 0 then 0 else Suc (bit_length (n div 2)))"
  by pat_completeness auto
termination
  by (relation "measure nat") auto

declare bit_length.simps [simp del]

text \<open>For \<open>x > 0\<close>, the exponent \<open>e\<close> with \<open>2 ^ e \<le> x < 2 ^ (e + 1)\<close>.\<close>

definition ilog2 :: "real \<Rightarrow> int" where
  "ilog2 x = (if 1 \<le> x then int (bit_length \<lfloor>x\<rfloor>) - 1
              else - int (bit_length (\<lceil>1 / x\<rceil> - 1)))"

text \<open>Rounding to the nearest integer, a tie going to the even neighbour.\<close>

definition rne :: "real \<Rightarrow> int" where
  "rne y = (let f = \<lfloor>y\<rfloor>; d = y - of_int f
            in if d < 1 / 2 then f else if 1 / 2 < d then f + 1
               else if even f then f else f + 1)"

text \<open>
  Rounding to a format with \<open>p\<close> significand bits and exponent range \<open>emin .. emax\<close>:
  the spacing of the representable values around \<open>x\<close> is \<open>2 ^ (e - p + 1)\<close>, where \<open>e\<close> is
  the exponent of \<open>x\<close>, or \<open>emin\<close> for a subnormal \<open>x\<close>.
\<close>

definition fl_round :: "nat \<Rightarrow> int \<Rightarrow> int \<Rightarrow> real \<Rightarrow> real option" where
  "fl_round p emin emax x =
     (if x = 0 then Some 0
      else let e = max (ilog2 \<bar>x\<bar>) emin;
               u = 2 powi (e - int p + 1);
               y = of_int (rne (x / u)) * u
           in if 2 powi (emax + 1) \<le> \<bar>y\<bar> then None else Some y)"

definition round32 :: "real \<Rightarrow> real option" where
  "round32 = fl_round 24 (- 126) 127"

definition round64 :: "real \<Rightarrow> real option" where
  "round64 = fl_round 53 (- 1022) 1023"

text \<open>Division of two \<open>float\<close> values; a zero divisor gives an infinity or a NaN.\<close>

definition fdiv32 :: "real \<Rightarrow> real \<Rightarrow> real option" where
  "fdiv32 a b = (if b = 0 then None else round32 (a / b))"

section \<open>Scaled quantization tables of the float kernel\<close>

text \<open>
  \<open>AANScaleFactor_float\<close>: the binary32 values of the eight literals of the source, which
  are listed in \<open>AAN_literals\<close>.
\<close>

definition AAN_literals :: "real list" where
  "AAN_literals = [1, 1387039845 / 1000000000, 1306562965 / 1000000000, 1175875602 / 1000000000,
                   1, 785694958 / 1000000000, 541196100 / 1000000000, 275899379 / 1000000000]"

definition AANScaleFactor_float :: "real list" where
  "AANScaleFactor_float = [1, 5817667 / 4194304, 10960245 / 8388608, 9863959 / 8388608,
                           1, 6590887 / 8388608, 2269941 / 4194304, 9257647 / 33554432]"

text \<open>
  \<open>csf_from_qtable\<close>: \<open>CSFtable[i] = (float) Qtable[0] / (float) Qtable[i]\<close>. Every
  \<open>int16_t\<close> is a binary32 value, so the two conversions are exact; the division rounds.
\<close>

definition csf_from_qtable :: "i16 list \<Rightarrow> real list option" where
  "csf_from_qtable Qtable =
     those (map (\<lambda>i. fdiv32 (real_of_int (sint (Qtable ! 0))) (real_of_int (sint (Qtable ! i))))
                [0..<64])"

text \<open>
  One iteration of the inner loop of \<open>scaled_qtable_float\<close>, for the entry in row \<open>r\<close>
  and column \<open>c\<close> with CSF coefficient \<open>q\<close>: \<open>AAN[r] * AAN[c]\<close> is a product of two
  \<open>float\<close> values, computed in binary32 and stored in the \<open>double\<close> \<open>aans\<close>; \<open>qaan\<close>,
  \<open>qaan / 8.0\<close>, \<open>qaan * 8.0\<close> and \<open>1.0 / (qaan * 8.0)\<close> are computed in binary64; the two
  results are converted to \<open>float\<close>. The result is the pair (Qidct[i], Qfdct[i]).
\<close>

definition scaled_entry :: "real \<Rightarrow> nat \<Rightarrow> nat \<Rightarrow> (real \<times> real) option" where
  "scaled_entry q r c =
     Option.bind (round32 (AANScaleFactor_float ! r * AANScaleFactor_float ! c)) (\<lambda>aans.
     Option.bind (round64 (aans * q)) (\<lambda>qaan.
     Option.bind (round64 (qaan / 8)) (\<lambda>d1.
     Option.bind (round32 d1) (\<lambda>qidct.
     Option.bind (round64 (qaan * 8)) (\<lambda>t.
     Option.bind (if t = 0 then None else round64 (1 / t)) (\<lambda>d2.
     Option.bind (round32 d2) (\<lambda>qfdct.
       Some (qidct, qfdct))))))))"

text \<open>
  \<open>scaled_qtable_float\<close>: the loops over \<open>r\<close> and \<open>c\<close> with the running index
  \<open>i = r * 8 + c\<close>; \<open>q\<close> is 1 when no CSF table is given. The result is the pair of
  tables (Qidct, Qfdct).
\<close>

definition scaled_qtable_float :: "real list option \<Rightarrow> (real list \<times> real list) option" where
  "scaled_qtable_float CSFtable =
     map_option (\<lambda>es. (map fst es, map snd es))
       (those (concat (map (\<lambda>r. map (\<lambda>c.
          let i = r * 8 + c;
              q = (case CSFtable of None \<Rightarrow> 1 | Some t \<Rightarrow> t ! i)
          in scaled_entry q r c) [0..<8]) [0..<8])))"

text \<open>\<open>quantization_table_scale\<close>, the overload for \<open>float\<close> tables.\<close>

definition quantization_table_scale_f :: "i16 list \<Rightarrow> (real list \<times> real list) option" where
  "quantization_table_scale_f Qbase =
     Option.bind (csf_from_qtable Qbase) (\<lambda>CSFtable. scaled_qtable_float (Some CSFtable))"

text \<open>
  The exact quantities the tables approximate: the AAN factor of position (r, c), the
  product \<open>AAN[r] * AAN[c]\<close> of the constants as the source writes them; the same
  product of the binary32 values that the array stores; the ratio \<open>Q[0] / Q[i]\<close>; and
  the product of the stored factor and the ratio.
\<close>

definition aan_factor :: "nat \<Rightarrow> nat \<Rightarrow> real" where
  "aan_factor r c = AAN_literals ! r * AAN_literals ! c"

definition aan_stored :: "nat \<Rightarrow> nat \<Rightarrow> real" where
  "aan_stored r c = AANScaleFactor_float ! r * AANScaleFactor_float ! c"

definition csf_exact :: "i16 list \<Rightarrow> nat \<Rightarrow> real" where
  "csf_exact Q i = real_of_int (sint (Q ! 0)) / real_of_int (sint (Q ! i))"

definition scaled_ref :: "i16 list \<Rightarrow> nat \<Rightarrow> nat \<Rightarrow> real" where
  "scaled_ref Q r c = aan_stored r c * csf_exact Q (r * 8 + c)"

section \<open>Image tiler\<close>

type_synonym u32 = "32 word"
type_synonym size_t = "64 word"

text \<open>
  \<open>image_tile_t\<close> and \<open>image_tiler_config_t\<close>, with \<open>size_t\<close> taken as 64 bits wide. The
  \<open>Pixels\<close> pointer of each is modelled by the array of packed RGBA8 pixels it points to.
  The fields of the tile carry the prefix \<open>t\<close> where the two structures share a name.
\<close>

record image_tile_t =
  SourceX :: size_t
  SourceY :: size_t
  SourceWidth :: size_t
  SourceHeight :: size_t
  TileX :: size_t
  TileY :: size_t
  TileIndex :: size_t
  tTileWidth :: size_t
  tTileHeight :: size_t
  BytesPerRow :: size_t
  BytesPerTile :: size_t
  tPixels :: "u32 list"

record image_tiler_config_t =
  TileWidth :: size_t
  TileHeight :: size_t
  ImageWidth :: size_t
  ImageHeight :: size_t
  BorderSize :: size_t
  BorderMode :: i32
  BorderColor :: u32
  Pixels :: "u32 list"

text \<open>
  Conversions between \<open>size_t\<close> and \<open>float\<close>. A \<open>size_t\<close> converts to the nearest
  binary32 value. A \<open>float\<close> converts to \<open>size_t\<close> by truncation; the conversion is
  undefined (\<open>None\<close>) when the truncated value is not a \<open>size_t\<close>. \<open>ceilf\<close> of a
  finite value is exact.
\<close>

definition float_of_size :: "size_t \<Rightarrow> real option" where
  "float_of_size n = round32 (real_of_int (uint n))"

definition size_of_float :: "real \<Rightarrow> size_t option" where
  "size_of_float x =
     (if - 1 < x \<and> x < 18446744073709551616
      then Some (word_of_int (if 0 \<le> x then \<lfloor>x\<rfloor> else 0)) else None)"

definition ceilf :: "real \<Rightarrow> real" where
  "ceilf x = real_of_int \<lceil>x\<rceil>"

text \<open>
  \<open>tile_count\<close>: the result is (tiles_x, tiles_y, tiles_x * tiles_y), the values stored
  through \<open>num_x\<close> and \<open>num_y\<close> and the value returned. It is \<open>None\<close> when a quotient
  is not finite (a division by zero) or out of the range of \<open>size_t\<close>, where the
  conversion to \<open>size_t\<close> is undefined.
\<close>

definition tile_count :: "image_tiler_config_t \<Rightarrow> (size_t \<times> size_t \<times> size_t) option" where
  "tile_count config =
     (let borders = BorderSize config * 2 in
      Option.bind (float_of_size (ImageWidth config)) (\<lambda>image_w.
      Option.bind (float_of_size (ImageHeight config)) (\<lambda>image_h.
      Option.bind (float_of_size (TileWidth config - borders)) (\<lambda>tile_w.
      Option.bind (float_of_size (TileHeight config - borders)) (\<lambda>tile_h.
      Option.bind (fdiv32 image_w tile_w) (\<lambda>qx.
      Option.bind (size_of_float (ceilf qx)) (\<lambda>tiles_x.
      Option.bind (fdiv32 image_h tile_h) (\<lambda>qy.
      Option.bind (size_of_float (ceilf qy)) (\<lambda>tiles_y.
        Some (tiles_x, tiles_y, tiles_x * tiles_y))))))))))"

text \<open>
  Pointers into a pixel array are offsets (integers); a read or a write through an
  offset outside the array is undefined (\<open>None\<close>).
\<close>

definition read_px :: "u32 list \<Rightarrow> int \<Rightarrow> u32 option" where
  "read_px buf p = (if 0 \<le> p \<and> p < int (length buf) then Some (buf ! nat p) else None)"

definition write_px :: "u32 list \<Rightarrow> int \<Rightarrow> u32 \<Rightarrow> u32 list option" where
  "write_px buf p v = (if 0 \<le> p \<and> p < int (length buf) then Some (buf[nat p := v]) else None)"

text \<open>\<open>for (i = 0; i < n; ++i) *row_buf++ = v\<close>.\<close>

function fill_px :: "u32 list \<Rightarrow> int \<Rightarrow> int \<Rightarrow> u32 \<Rightarrow> u32 list option" where
  "fill_px buf p n v =
     (if n \<le> 0 then Some buf
      else case write_px buf p v of None \<Rightarrow> None
           | Some buf' \<Rightarrow> fill_px buf' (p + 1) (n - 1) v)"
  by pat_completeness auto
termination by (relation "measure (\<lambda>(buf, p, n, v). nat n)") auto

declare fill_px.simps [simp del]

text \<open>\<open>for (i = 0; i < n; ++i) *row_buf++ = *src_row++\<close>, between two arrays.\<close>

function copy_px :: "u32 list \<Rightarrow> int \<Rightarrow> u32 list \<Rightarrow> int \<Rightarrow> int \<Rightarrow> u32 list option" where
  "copy_px buf p src s n =
     (if n \<le> 0 then Some buf
      else case read_px src s of None \<Rightarrow> None
           | Some v \<Rightarrow> (case write_px buf p v of None \<Rightarrow> None
               | Some buf' \<Rightarrow> copy_px buf' (p + 1) src (s + 1) (n - 1)))"
  by pat_completeness auto
termination by (relation "measure (\<lambda>(buf, p, src, s, n). nat n)") auto

declare copy_px.simps [simp del]

text \<open>\<open>for (j = 0; j < n; ++j) *dst_row++ = *row++\<close>, within the tile.\<close>

function copy_within :: "u32 list \<Rightarrow> int \<Rightarrow> int \<Rightarrow> int \<Rightarrow> u32 list option" where
  "copy_within buf p s n =
     (if n \<le> 0 then Some buf
      else case read_px buf s of None \<Rightarrow> None
           | Some v \<Rightarrow> (case write_px buf p v of None \<Rightarrow> None
               | Some buf' \<Rightarrow> copy_within buf' (p + 1) (s + 1) (n - 1)))"
  by pat_completeness auto
termination by (relation "measure (\<lambda>(buf, p, s, n). nat n)") auto

declare copy_within.simps [simp del]

text \<open>\<open>sample_border\<close>: the edge pixel is read only in the mode \<open>BORDER_CLAMP_TO_EDGE\<close> (0).\<close>

definition sample_border :: "image_tiler_config_t \<Rightarrow> int \<Rightarrow> u32 option" where
  "sample_border config edge =
     (if BorderMode config = 0 then read_px (Pixels config) edge
      else if BorderMode config = 1 then Some (BorderColor config)
      else Some 0)"

text \<open>
  \<open>read_row\<close>: \<open>row_buf\<close> and \<open>src_row\<close> are offsets into the tile \<open>buf\<close> and into the
  source image; the result is the tile after the row is written.
\<close>

definition read_row :: "u32 list \<Rightarrow> int \<Rightarrow> int \<Rightarrow> size_t \<Rightarrow> size_t \<Rightarrow> image_tiler_config_t \<Rightarrow> u32 list option" where
  "read_row buf row_buf src_row src_num pad_right config =
     (let left_edge = src_row;
          right_edge = src_row + uint (src_num - 1);
          b = uint (BorderSize config)
      in Option.bind (sample_border config left_edge) (\<lambda>left_border.
         Option.bind (fill_px buf row_buf b left_border) (\<lambda>buf1.
         Option.bind (copy_px buf1 (row_buf + b) (Pixels config) src_row (uint src_num)) (\<lambda>buf2.
         Option.bind (read_px (Pixels config) right_edge) (\<lambda>right_pixel.
         Option.bind (fill_px buf2 (row_buf + b + uint src_num) (uint pad_right) right_pixel) (\<lambda>buf3.
         Option.bind (sample_border config right_edge) (\<lambda>right_border.
           fill_px buf3 (row_buf + b + uint src_num + uint pad_right) b right_border)))))))"

text \<open>\<open>read_row_border\<close>: the \<open>switch\<close> has no default case.\<close>

definition read_row_border :: "u32 list \<Rightarrow> int \<Rightarrow> size_t \<Rightarrow> int \<Rightarrow> size_t \<Rightarrow> size_t \<Rightarrow> image_tiler_config_t \<Rightarrow> u32 list option" where
  "read_row_border buf row_buf row_num src_row src_num pad_right config =
     (if BorderMode config = 0 then read_row buf row_buf src_row src_num pad_right config
      else if BorderMode config = 1 then fill_px buf row_buf (uint row_num) (BorderColor config)
      else Some buf)"

text \<open>
  The four loops over rows of \<open>copy_tile\<close>. Each returns the tile and the pointers it
  has advanced: the border rows \<open>dst_row\<close>, the image rows \<open>dst_row\<close> and \<open>src_row\<close>,
  the padding rows \<open>dst_row\<close>.
\<close>

function border_rows :: "u32 list \<Rightarrow> int \<Rightarrow> size_t \<Rightarrow> int \<Rightarrow> size_t \<Rightarrow> size_t \<Rightarrow> image_tiler_config_t \<Rightarrow> int \<Rightarrow> (u32 list \<times> int) option" where
  "border_rows buf dst_row dst_num src_row source_w pad_right config n =
     (if n \<le> 0 then Some (buf, dst_row)
      else case read_row_border buf dst_row dst_num src_row source_w pad_right config of None \<Rightarrow> None
           | Some buf' \<Rightarrow> border_rows buf' (dst_row + uint dst_num) dst_num src_row source_w pad_right config (n - 1))"
  by pat_completeness auto
termination by (relation "measure (\<lambda>(buf, dst_row, dst_num, src_row, source_w, pad_right, config, n). nat n)") auto

declare border_rows.simps [simp del]

function image_rows :: "u32 list \<Rightarrow> int \<Rightarrow> size_t \<Rightarrow> int \<Rightarrow> size_t \<Rightarrow> size_t \<Rightarrow> image_tiler_config_t \<Rightarrow> int \<Rightarrow> (u32 list \<times> int \<times> int) option" where
  "image_rows buf dst_row dst_num src_row source_w pad_right config n =
     (if n \<le> 0 then Some (buf, dst_row, src_row)
      else case read_row buf dst_row src_row source_w pad_right config of None \<Rightarrow> None
           | Some buf' \<Rightarrow> image_rows buf' (dst_row + uint dst_num) dst_num
                (src_row + uint (ImageWidth config)) source_w pad_right config (n - 1))"
  by pat_completeness auto
termination by (relation "measure (\<lambda>(buf, dst_row, dst_num, src_row, source_w, pad_right, config, n). nat n)") auto

declare image_rows.simps [simp del]

function padding_rows :: "u32 list \<Rightarrow> int \<Rightarrow> int \<Rightarrow> size_t \<Rightarrow> int \<Rightarrow> (u32 list \<times> int) option" where
  "padding_rows buf dst_row last_row dst_num n =
     (if n \<le> 0 then Some (buf, dst_row)
      else case copy_within buf dst_row last_row (uint dst_num) of None \<Rightarrow> None
           | Some buf' \<Rightarrow> padding_rows buf' (dst_row + uint dst_num) last_row dst_num (n - 1))"
  by pat_completeness auto
termination by (relation "measure (\<lambda>(buf, dst_row, last_row, dst_num, n). nat n)") auto

declare padding_rows.simps [simp del]

text \<open>
  \<open>copy_tile\<close>: the result is the returned \<open>bool\<close> and the tile as the call leaves it;
  \<open>None\<close> when the behaviour of the call is undefined.
\<close>

definition copy_tile :: "image_tile_t \<Rightarrow> image_tiler_config_t \<Rightarrow> size_t \<Rightarrow> (bool \<times> image_tile_t) option" where
  "copy_tile tile config index =
     Option.bind (tile_count config) (\<lambda>(tiles_x, tiles_y, tiles_n).
       if tiles_n \<le> index then Some (False, tile)
       else if tiles_x = 0 then None
       else
         let tile_y = index div tiles_x;
             tile_x = index mod tiles_x;
             source_w0 = TileWidth config - BorderSize config * 2;
             source_h0 = TileHeight config - BorderSize config * 2;
             source_x = tile_x * source_w0;
             source_y = tile_y * source_h0;
             src_row = uint (source_y * ImageWidth config) + uint source_x;
             dst_num = TileWidth config;
             over_w = (ImageWidth config < source_x + source_w0);
             pad_right = (if over_w then source_w0 - (ImageWidth config - source_x) else 0);
             source_w = (if over_w then ImageWidth config - source_x else source_w0);
             over_h = (ImageHeight config < source_y + source_h0);
             pad_bottom = (if over_h then source_h0 - (ImageHeight config - source_y) else 0);
             source_h = (if over_h then ImageHeight config - source_y else source_h0)
         in
         Option.bind (border_rows (tPixels tile) 0 dst_num src_row source_w pad_right config
                        (uint (BorderSize config))) (\<lambda>(buf1, dst_row1).
         Option.bind (image_rows buf1 dst_row1 dst_num src_row source_w pad_right config
                        (uint source_h)) (\<lambda>(buf2, dst_row2, src_row2).
         Option.bind (padding_rows buf2 dst_row2 (dst_row2 - uint dst_num) dst_num
                        (uint pad_bottom)) (\<lambda>(buf3, dst_row3).
         Option.bind (border_rows buf3 dst_row3 dst_num src_row2 source_w pad_right config
                        (uint (BorderSize config))) (\<lambda>(buf4, dst_row4).
           Some (True, tile\<lparr>
             SourceX := source_x, SourceY := source_y,
             SourceWidth := source_w, SourceHeight := source_h,
             TileX := tile_x, TileY := tile_y, TileIndex := index,
             tTileWidth := TileWidth config, tTileHeight := TileHeight config,
             BytesPerRow := TileWidth config * 4,
             BytesPerTile := TileWidth config * TileHeight config * 4,
             tPixels := buf4\<rparr>))))))"

section \<open>Affine forms for the integer DCT round trip\<close>

































text \<open>The meaning of a form: \<open>approx x V A\<close> holds when \<open>A\<close> describes \<open>V\<close> for the block \<open>x\<close>.\<close>

definition dot :: "int list \<Rightarrow> int list \<Rightarrow> int" where
  "dot c x = sum_list (map2 (*) c x)"








section \<open>Properties of the integer conversions\<close>

lemma sint_int_of16: "sint (int_of16 x) = sint x"
  by (simp add: int_of16_def sint_up_scast is_up)

lemma sint_to16: "sint (to16 x) = signed_take_bit 15 (sint x)"
  unfolding to16_def
  by (simp add: sint_uint signed_take_bit_eq_iff_take_bit_eq unsigned_ucast_eq) 

lemma sint_to16_id: "- 32768 \<le> sint x \<Longrightarrow> sint x < 32768 \<Longrightarrow> sint (to16 x) = sint x"
  by (simp add: sint_to16 signed_take_bit_int_eq_self)

lemma sint_to16_eq: "sint x = k \<Longrightarrow> - 32768 \<le> k \<Longrightarrow> k < 32768 \<Longrightarrow> sint (to16 x) = k"
  by (simp add: sint_to16_id)

lemma sint_asr: "sint (asr n x) = sint x div 2 ^ n"
  by (simp add: asr_def sint_signed_drop_bit_eq drop_bit_eq_div)

lemma sint_add32: "- 2147483648 \<le> sint a + sint b \<Longrightarrow> sint a + sint b < 2147483648 \<Longrightarrow> sint (a + b :: i32) = sint a + sint b"
  by (simp add: sint_word_add signed_take_bit_int_eq_self)

lemma sint_sub32: "- 2147483648 \<le> sint a - sint b \<Longrightarrow> sint a - sint b < 2147483648 \<Longrightarrow> sint (a - b :: i32) = sint a - sint b"
  by (simp add: sint_word_diff signed_take_bit_int_eq_self)

lemma sint16_range: "- 32768 \<le> sint (x :: i16) \<and> sint x < 32768"
  using sint_ge [of x] sint_lt [of x] by simp

text \<open>Arithmetic on two promoted \<open>int16_t\<close> values never overflows \<open>int\<close>.\<close>
lemma sint_add16: "sint (int_of16 a + int_of16 b) = sint a + sint b"
  using sint16_range [of a] sint16_range [of b] by (simp add: sint_add32 sint_int_of16)

lemma sint_sub16: "sint (int_of16 a - int_of16 b) = sint a - sint b"
  using sint16_range [of a] sint16_range [of b] by (simp add: sint_sub32 sint_int_of16)

lemma sint_add16_asr: "sint (int_of16 a + asr 1 (int_of16 b)) = sint a + sint b div 2"
proof -
  have "sint (int_of16 a + asr 1 (int_of16 b)) = sint (int_of16 a) + sint (asr 1 (int_of16 b))"
    using sint16_range [of a] sint16_range [of b]
    by (intro sint_add32) (simp_all add: sint_int_of16 sint_asr, linarith+)
  then show ?thesis by (simp add: sint_int_of16 sint_asr)
qed

lemma sint_sub16_asr: "sint (int_of16 a - asr 1 (int_of16 b)) = sint a - sint b div 2"
proof -
  have "sint (int_of16 a - asr 1 (int_of16 b)) = sint (int_of16 a) - sint (asr 1 (int_of16 b))"
    using sint16_range [of a] sint16_range [of b]
    by (intro sint_sub32) (simp_all add: sint_int_of16 sint_asr, linarith+)
  then show ?thesis by (simp add: sint_int_of16 sint_asr)
qed

lemma uint_byte: "0 \<le> uint (R :: u8) \<and> uint R \<le> 255"
  using uint_lt2p [of R] by simp

lemma sint_byte16: "sint (ucast (R :: u8) :: i16) = uint R"
proof -
  have "take_bit 16 (uint R) = uint R"
    using uint_byte [of R] by (simp add: take_bit_int_eq_self)
  moreover have "- 32768 \<le> uint R" "uint R < 32768"
    using uint_byte [of R] by linarith+
  then have "signed_take_bit 15 (uint R) = uint R"
    by (intro signed_take_bit_int_eq_self) simp_all
  ultimately show ?thesis
    by (simp add: sint_uint unsigned_ucast_eq)
qed

lemma ycocg_of_rgb_sint:
  "map sint (ycocg_of_rgb R G B) = ycocg_int (uint R) (uint G) (uint B)"
proof -
  define r g b where "r = uint R" and "g = uint G" and "b = uint B"
  have rng: "0 \<le> r" "r \<le> 255" "0 \<le> g" "g \<le> 255" "0 \<le> b" "b \<le> 255"
    using uint_byte [of R] uint_byte [of G] uint_byte [of B] by (simp_all add: r_def g_def b_def)
  define Co where "Co = to16 (int_of16 (ucast R) - int_of16 (ucast B))"
  define t where "t = to16 (int_of16 (ucast B) + asr 1 (int_of16 Co))"
  define Cg where "Cg = to16 (int_of16 (ucast G) - int_of16 t)"
  define Y where "Y = to16 (int_of16 t + asr 1 (int_of16 Cg))"
  have bytes: "sint (ucast R :: i16) = r" "sint (ucast G :: i16) = g" "sint (ucast B :: i16) = b"
    by (simp_all add: sint_byte16 r_def g_def b_def)
  have co: "sint Co = r - b"
    unfolding Co_def
  proof (rule sint_to16_eq)
    show "sint (int_of16 (ucast R) - int_of16 (ucast B)) = r - b"
      by (simp add: sint_sub16 bytes)
  qed (use rng in linarith)+
  have t: "sint t = b + (r - b) div 2"
    unfolding t_def
  proof (rule sint_to16_eq)
    show "sint (int_of16 (ucast B) + asr 1 (int_of16 Co)) = b + (r - b) div 2"
      by (simp only: sint_add16_asr bytes co)
  qed (use rng in linarith)+
  have cg: "sint Cg = g - (b + (r - b) div 2)"
    unfolding Cg_def
  proof (rule sint_to16_eq)
    show "sint (int_of16 (ucast G) - int_of16 t) = g - (b + (r - b) div 2)"
      by (simp add: sint_sub16 bytes t)
  qed (use rng in linarith)+
  have y: "sint Y = b + (r - b) div 2 + (g - (b + (r - b) div 2)) div 2"
    unfolding Y_def
  proof (rule sint_to16_eq)
    show "sint (int_of16 t + asr 1 (int_of16 Cg)) = b + (r - b) div 2 + (g - (b + (r - b) div 2)) div 2"
      by (simp only: sint_add16_asr t cg)
  qed (use rng in linarith)+
  have "ycocg_of_rgb R G B = [Y, Co, Cg]"
    by (simp add: ycocg_of_rgb_def Let_def Y_def Co_def Cg_def t_def)
  then show ?thesis
    by (simp add: ycocg_int_def Let_def co cg y r_def g_def b_def)
qed

lemma length_concat_chunks:
  "(\<And>i. i < n \<Longrightarrow> length (f i) = k) \<Longrightarrow> length (concat (map f [0..<n])) = n * k"
  by (induction n) simp_all

lemma nth_concat_chunks:
  "(\<And>i. i < n \<Longrightarrow> length (f i) = k) \<Longrightarrow> j < n * k \<Longrightarrow>
     concat (map f [0..<n]) ! j = f (j div k) ! (j mod k)"
proof (induction n)
  case 0
  then show ?case by simp
next
  case (Suc n)
  have len: "length (concat (map f [0..<n])) = n * k"
    using Suc.prems(1) by (intro length_concat_chunks) simp
  show ?case
  proof (cases "j < n * k")
    case True
    then show ?thesis using Suc len by (simp add: nth_append)
  next
    case False
    then have d: "j div k = n"
      using Suc.prems(2) by (intro div_nat_eqI) (simp_all add: algebra_simps)
    then have "j mod k = j - n * k"
      by (simp add: modulo_nat_def)
    note this d
    then show ?thesis using False len by (simp add: nth_append)
  qed
qed

lemma word_eq_sintI: "sint (v :: 'a::len word) = sint w \<Longrightarrow> v = w"
  by (rule signed_word_eqI)

lemma rgb_of_ycocg_inverse:
  assumes "ycocg_of_rgb R G B = [Y, Co, Cg]"
  shows "rgb_of_ycocg Y Co Cg = (ucast R, ucast G, ucast B)"
proof -
  define r g b where "r = uint R" and "g = uint G" and "b = uint B"
  have rng: "0 \<le> r" "r \<le> 255" "0 \<le> g" "g \<le> 255" "0 \<le> b" "b \<le> 255"
    using uint_byte [of R] uint_byte [of G] uint_byte [of B] by (simp_all add: r_def g_def b_def)
  have "map sint [Y, Co, Cg] = ycocg_int r g b"
    using ycocg_of_rgb_sint [of R G B] assms by (simp add: r_def g_def b_def)
  then have co: "sint Co = r - b" and cg: "sint Cg = g - (b + (r - b) div 2)"
    and y: "sint Y = b + (r - b) div 2 + (g - (b + (r - b) div 2)) div 2"
    by (simp_all add: ycocg_int_def Let_def)
  define t where "t = to16 (int_of16 Y - asr 1 (int_of16 Cg))"
  define g' where "g' = to16 (int_of16 Cg + int_of16 t)"
  define b' where "b' = to16 (int_of16 t - asr 1 (int_of16 Co))"
  define r' where "r' = to16 (int_of16 b' + int_of16 Co)"
  have t: "sint t = b + (r - b) div 2"
    unfolding t_def
  proof (rule sint_to16_eq)
    show "sint (int_of16 Y - asr 1 (int_of16 Cg)) = b + (r - b) div 2"
      by (simp add: sint_sub16_asr [unfolded One_nat_def] y cg)
  qed (use rng in linarith)+
  have g: "sint g' = g"
    unfolding g'_def
  proof (rule sint_to16_eq)
    show "sint (int_of16 Cg + int_of16 t) = g"
      by (simp add: sint_add16 t cg)
  qed (use rng in linarith)+
  have b: "sint b' = b"
    unfolding b'_def
  proof (rule sint_to16_eq)
    show "sint (int_of16 t - asr 1 (int_of16 Co)) = b"
      by (simp add: sint_sub16_asr [unfolded One_nat_def] t co)
  qed (use rng in linarith)+
  have r: "sint r' = r"
    unfolding r'_def
  proof (rule sint_to16_eq)
    show "sint (int_of16 b' + int_of16 Co) = r"
      by (simp add: sint_add16 b co)
  qed (use rng in linarith)+
  have "r' = ucast R" "g' = ucast G" "b' = ucast B"
    by (rule word_eq_sintI, simp add: sint_byte16 r g b r_def g_def b_def)+
  moreover have "rgb_of_ycocg Y Co Cg = (r', g', b')"
    by (simp add: rgb_of_ycocg_def Let_def t_def g'_def b'_def r'_def)
  ultimately show ?thesis by simp
qed

lemma clamp_byte: "clamp (int_of16 (ucast (R :: u8))) = R \<and> \<not> clamps (int_of16 (ucast R))"
proof -
  have s: "sint (int_of16 (ucast R)) = uint R"
    by (simp add: sint_int_of16 sint_byte16)
  have "- 2147483648 \<le> uint R" "uint R < 2147483648"
    using uint_byte [of R] by linarith+
  then have "signed_take_bit 31 (uint R) = uint R"
    by (intro signed_take_bit_int_eq_self) simp_all
  moreover have "take_bit 32 (uint R) = uint R"
    using uint_byte [of R] by (simp add: take_bit_int_eq_self)
  ultimately have "sint (ucast R :: i32) = uint R"
    by (simp add: sint_uint unsigned_ucast_eq)
  then have "int_of16 (ucast R) = (ucast R :: i32)"
    by (intro word_eq_sintI) (simp add: s)
  then have "ucast (int_of16 (ucast R)) = R"
    by (simp add: ucast_up_ucast_id is_up)
  then show ?thesis
    using uint_byte [of R] by (simp add: clamp_def clamps_def word_sless_alt s)
qed

lemma list3_nth: "length xs = 3 \<Longrightarrow> xs = [xs ! 0, xs ! 1, xs ! 2]"
  by (cases xs; simp; rename_tac a as; case_tac as; simp; rename_tac b bs; case_tac bs; simp)

lemma length_ycocg_of_rgb: "length (ycocg_of_rgb R G B) = 3"
  by (simp add: ycocg_of_rgb_def Let_def)

lemma length_rgba_to_ycocga:
  "length (fst (rgba_to_ycocga rgba)) = 768" "length (snd (rgba_to_ycocga rgba)) = 256"
  by (simp_all add: rgba_to_ycocga_def length_concat_chunks [where k = 3] length_ycocg_of_rgb)

lemma ycocg_nth:
  assumes "i < 256" "k < 3"
  shows "fst (rgba_to_ycocga rgba) ! (3 * i + k) =
           ycocg_of_rgb (rgba ! (4 * i)) (rgba ! (4 * i + 1)) (rgba ! (4 * i + 2)) ! k"
proof -
  have "(3 * i + k) div 3 = i" "(3 * i + k) mod 3 = k" "3 * i + k < 256 * 3"
    using assms by simp_all
  then show ?thesis
    using nth_concat_chunks [where n = 256 and k = 3 and j = "3 * i + k"
        and f = "\<lambda>i. ycocg_of_rgb (rgba ! (4 * i)) (rgba ! (4 * i + 1)) (rgba ! (4 * i + 2))"]
    by (simp add: rgba_to_ycocga_def length_ycocg_of_rgb)
qed

lemma alpha_nth: "i < 256 \<Longrightarrow> snd (rgba_to_ycocga rgba) ! i = rgba ! (4 * i + 3)"
  by (simp add: rgba_to_ycocga_def)

lemma pixel_roundtrip:
  assumes "i < 256"
  shows "rgb_of_ycocg (fst (rgba_to_ycocga rgba) ! (3 * i)) (fst (rgba_to_ycocga rgba) ! (3 * i + 1))
           (fst (rgba_to_ycocga rgba) ! (3 * i + 2)) =
         (ucast (rgba ! (4 * i)), ucast (rgba ! (4 * i + 1)), ucast (rgba ! (4 * i + 2)))"
proof -
  let ?p = "ycocg_of_rgb (rgba ! (4 * i)) (rgba ! (4 * i + 1)) (rgba ! (4 * i + 2))"
  have "?p = [?p ! 0, ?p ! 1, ?p ! 2]"
    by (rule list3_nth) (rule length_ycocg_of_rgb)
  then have "rgb_of_ycocg (?p ! 0) (?p ! 1) (?p ! 2) =
      (ucast (rgba ! (4 * i)), ucast (rgba ! (4 * i + 1)), ucast (rgba ! (4 * i + 2)))"
    by (rule rgb_of_ycocg_inverse)
  then show ?thesis
    using ycocg_nth [OF assms, of 0 rgba] ycocg_nth [OF assms, of 1 rgba] ycocg_nth [OF assms, of 2 rgba]
    by simp
qed

text \<open>
  C1. For every 16x16 block of 256 RGBA8 pixels (a buffer of 1024 bytes, every byte being in
  [0, 255] by its type), converting with \<open>rgba_to_ycocga\<close> and back with
  \<open>ycocga_to_rgba\<close> returns the input buffer, and for no pixel does the value of r, g or
  b computed by the inverse lie outside [0, 255], so \<open>clamp\<close> never cuts a value.
\<close>

theorem ycocga_roundtrip:
  assumes "length rgba = 1024"
  shows "ycocga_to_rgba (fst (rgba_to_ycocga rgba)) (snd (rgba_to_ycocga rgba)) = rgba \<and>
    (\<forall>i<256. case rgb_of_ycocg (fst (rgba_to_ycocga rgba) ! (3 * i))
                     (fst (rgba_to_ycocga rgba) ! (3 * i + 1))
                     (fst (rgba_to_ycocga rgba) ! (3 * i + 2))
               of (r, g, b) \<Rightarrow>
                 \<not> clamps (int_of16 r) \<and> \<not> clamps (int_of16 g) \<and> \<not> clamps (int_of16 b))"
proof
  let ?f = "\<lambda>i. [rgba ! (4 * i), rgba ! (4 * i + 1), rgba ! (4 * i + 2), rgba ! (4 * i + 3)]"
  have out: "ycocga_to_rgba (fst (rgba_to_ycocga rgba)) (snd (rgba_to_ycocga rgba)) =
      concat (map ?f [0..<256])"
    unfolding ycocga_to_rgba_def
  proof (rule arg_cong [where f = concat], rule map_cong [OF refl])
    fix i assume "i \<in> set [0..<256]"
    then have i: "i < 256" by simp
    show "(case rgb_of_ycocg (fst (rgba_to_ycocga rgba) ! (3 * i))
                (fst (rgba_to_ycocga rgba) ! (3 * i + 1)) (fst (rgba_to_ycocga rgba) ! (3 * i + 2))
           of (r, g, b) \<Rightarrow> [clamp (int_of16 r), clamp (int_of16 g), clamp (int_of16 b),
                             snd (rgba_to_ycocga rgba) ! i]) = ?f i"
      using pixel_roundtrip [OF i, of rgba] alpha_nth [OF i, of rgba] by (simp add: clamp_byte)
  qed
  have len: "length (concat (map ?f [0..<256])) = 256 * 4"
    by (rule length_concat_chunks) simp
  have "concat (map ?f [0..<256]) = rgba"
  proof (rule nth_equalityI)
    show "length (concat (map ?f [0..<256])) = length rgba"
      using len assms by simp
  next
    fix j assume "j < length (concat (map ?f [0..<256]))"
    then have j: "j < 256 * 4" using len by simp
    have "concat (map ?f [0..<256]) ! j = ?f (j div 4) ! (j mod 4)"
      using j by (intro nth_concat_chunks) simp_all
    moreover have "j mod 4 = 0 \<or> j mod 4 = 1 \<or> j mod 4 = 2 \<or> j mod 4 = 3"
      by presburger
    then have "?f (j div 4) ! (j mod 4) = rgba ! (4 * (j div 4) + j mod 4)"
      by (elim disjE) simp_all
    moreover have "4 * (j div 4) + j mod 4 = j"
      by presburger
    ultimately show "concat (map ?f [0..<256]) ! j = rgba ! j"
      by simp
  qed
  with out show "ycocga_to_rgba (fst (rgba_to_ycocga rgba)) (snd (rgba_to_ycocga rgba)) = rgba"
    by simp
next
  show "\<forall>i<256. case rgb_of_ycocg (fst (rgba_to_ycocga rgba) ! (3 * i))
                     (fst (rgba_to_ycocga rgba) ! (3 * i + 1))
                     (fst (rgba_to_ycocga rgba) ! (3 * i + 2))
               of (r, g, b) \<Rightarrow>
                 \<not> clamps (int_of16 r) \<and> \<not> clamps (int_of16 g) \<and> \<not> clamps (int_of16 b)"
  proof (intro allI impI)
    fix i :: nat assume i: "i < 256"
    show "case rgb_of_ycocg (fst (rgba_to_ycocga rgba) ! (3 * i))
                     (fst (rgba_to_ycocga rgba) ! (3 * i + 1))
                     (fst (rgba_to_ycocga rgba) ! (3 * i + 2))
               of (r, g, b) \<Rightarrow>
                 \<not> clamps (int_of16 r) \<and> \<not> clamps (int_of16 g) \<and> \<not> clamps (int_of16 b)"
      using pixel_roundtrip [OF i, of rgba] by (simp add: clamp_byte)
  qed
qed

theorem ycocga_roundtrip_witness:
  "length (replicate 1024 (200 :: u8)) = 1024 \<and>
   ycocga_to_rgba (fst (rgba_to_ycocga (replicate 1024 200))) (snd (rgba_to_ycocga (replicate 1024 200)))
     = replicate 1024 200 \<and>
   (5 :: nat) < 256 \<and>
   (case rgb_of_ycocg (fst (rgba_to_ycocga (replicate 1024 200)) ! (3 * 5))
                     (fst (rgba_to_ycocga (replicate 1024 200)) ! (3 * 5 + 1))
                     (fst (rgba_to_ycocga (replicate 1024 200)) ! (3 * 5 + 2))
               of (r, g, b) \<Rightarrow>
                 \<not> clamps (int_of16 r) \<and> \<not> clamps (int_of16 g) \<and> \<not> clamps (int_of16 b))"
proof -
  have h: "length (replicate 1024 (200 :: u8)) = 1024" by simp
  have i: "(5 :: nat) < 256" by simp
  show ?thesis
    using h i ycocga_roundtrip [OF h, THEN conjunct1]
      ycocga_roundtrip [OF h, THEN conjunct2, rule_format, OF i] by simp
qed

lemma ycocg_of_rgb_range:
  "0 \<le> sint (ycocg_of_rgb R G B ! 0) \<and> sint (ycocg_of_rgb R G B ! 0) \<le> 255 \<and>
   - 255 \<le> sint (ycocg_of_rgb R G B ! 1) \<and> sint (ycocg_of_rgb R G B ! 1) \<le> 255 \<and>
   - 255 \<le> sint (ycocg_of_rgb R G B ! 2) \<and> sint (ycocg_of_rgb R G B ! 2) \<le> 255"
proof -
  define r g b where "r = uint R" and "g = uint G" and "b = uint B"
  have rng: "0 \<le> r" "r \<le> 255" "0 \<le> g" "g \<le> 255" "0 \<le> b" "b \<le> 255"
    using uint_byte [of R] uint_byte [of G] uint_byte [of B] by (simp_all add: r_def g_def b_def)
  have "map sint (ycocg_of_rgb R G B) ! k = sint (ycocg_of_rgb R G B ! k)" if "k < 3" for k
    using that by (simp add: length_ycocg_of_rgb)
  then have "sint (ycocg_of_rgb R G B ! 0) = ycocg_int r g b ! 0"
    "sint (ycocg_of_rgb R G B ! 1) = ycocg_int r g b ! 1"
    "sint (ycocg_of_rgb R G B ! 2) = ycocg_int r g b ! 2"
    by (simp_all add: ycocg_of_rgb_sint [symmetric] r_def g_def b_def)
  moreover have "0 \<le> ycocg_int r g b ! 0 \<and> ycocg_int r g b ! 0 \<le> 255"
    using rng by (simp add: ycocg_int_def Let_def) linarith
  moreover have "- 255 \<le> ycocg_int r g b ! 1 \<and> ycocg_int r g b ! 1 \<le> 255"
    using rng by (simp add: ycocg_int_def Let_def)
  moreover have "- 255 \<le> ycocg_int r g b ! 2 \<and> ycocg_int r g b ! 2 \<le> 255"
    using rng by (simp add: ycocg_int_def Let_def) linarith
  ultimately show ?thesis by simp
qed

text \<open>
  C6. For every pixel of the input block, \<open>rgba_to_ycocga\<close> stores Y in [0, 255], Co in
  [-255, 255] and Cg in [-255, 255] (the samples read as signed 16-bit values).
\<close>

theorem rgba_to_ycocga_range:
  assumes "length rgba = 1024"
  shows "\<forall>i<256. 0 \<le> sint (fst (rgba_to_ycocga rgba) ! (3 * i)) \<and>
                  sint (fst (rgba_to_ycocga rgba) ! (3 * i)) \<le> 255 \<and>
                  - 255 \<le> sint (fst (rgba_to_ycocga rgba) ! (3 * i + 1)) \<and>
                  sint (fst (rgba_to_ycocga rgba) ! (3 * i + 1)) \<le> 255 \<and>
                  - 255 \<le> sint (fst (rgba_to_ycocga rgba) ! (3 * i + 2)) \<and>
                  sint (fst (rgba_to_ycocga rgba) ! (3 * i + 2)) \<le> 255"
proof (intro allI impI)
  fix i :: nat assume i: "i < 256"
  show "0 \<le> sint (fst (rgba_to_ycocga rgba) ! (3 * i)) \<and>
                  sint (fst (rgba_to_ycocga rgba) ! (3 * i)) \<le> 255 \<and>
                  - 255 \<le> sint (fst (rgba_to_ycocga rgba) ! (3 * i + 1)) \<and>
                  sint (fst (rgba_to_ycocga rgba) ! (3 * i + 1)) \<le> 255 \<and>
                  - 255 \<le> sint (fst (rgba_to_ycocga rgba) ! (3 * i + 2)) \<and>
                  sint (fst (rgba_to_ycocga rgba) ! (3 * i + 2)) \<le> 255"
    using ycocg_nth [OF i, of 0 rgba] ycocg_nth [OF i, of 1 rgba] ycocg_nth [OF i, of 2 rgba]
      ycocg_of_rgb_range [of "rgba ! (4 * i)" "rgba ! (4 * i + 1)" "rgba ! (4 * i + 2)"]
    by simp
qed

theorem rgba_to_ycocga_range_witness:
  "length (replicate 1024 (200 :: u8)) = 1024 \<and> (5 :: nat) < 256 \<and>
   0 \<le> sint (fst (rgba_to_ycocga (replicate 1024 200)) ! (3 * 5)) \<and>
   sint (fst (rgba_to_ycocga (replicate 1024 200)) ! (3 * 5 + 1)) \<le> 255"
proof -
  have h: "length (replicate 1024 (200 :: u8)) = 1024" by simp
  have i: "(5 :: nat) < 256" by simp
  show ?thesis
    using h i rgba_to_ycocga_range [OF h, rule_format, OF i] by simp
qed

section \<open>Block sampler: quadrants and their merge\<close>

lemma length_apply_writes: "length (apply_writes ws d) = length d"
  by (induction ws arbitrary: d) (simp_all add: apply_writes_def)

lemma apply_writes_Cons: "apply_writes (w # ws) d = apply_writes ws (d[fst w := snd w])"
  by (simp add: apply_writes_def)

lemma apply_writes_append: "apply_writes (ws @ ws') d = apply_writes ws' (apply_writes ws d)"
  by (simp add: apply_writes_def)

lemma apply_writes_notin: "q \<notin> fst ` set ws \<Longrightarrow> apply_writes ws d ! q = d ! q"
  by (induction ws arbitrary: d) (auto simp: apply_writes_def)

lemma apply_writes_in:
  "(q, v) \<in> set ws \<Longrightarrow> (\<And>v'. (q, v') \<in> set ws \<Longrightarrow> v' = v) \<Longrightarrow> q < length d \<Longrightarrow>
     apply_writes ws d ! q = v"
proof (induction ws arbitrary: d)
  case Nil
  then show ?case by simp
next
  case (Cons w ws)
  show ?case
  proof (cases "q \<in> fst ` set ws")
    case True
    then obtain v' where "(q, v') \<in> set ws" by auto
    then have "(q, v) \<in> set ws" using Cons.prems(2) [of v'] by simp
    moreover have "\<And>v'. (q, v') \<in> set ws \<Longrightarrow> v' = v"
      by (rule Cons.prems(2)) simp
    moreover have "q < length (d[fst w := snd w])"
      using Cons.prems(3) by simp
    ultimately have "apply_writes ws (d[fst w := snd w]) ! q = v"
      by (rule Cons.IH)
    then show ?thesis
      by (simp add: apply_writes_Cons)
  next
    case False
    then have "w = (q, v)" using Cons.prems(1) by force
    then show ?thesis
      using False Cons.prems(3) by (simp add: apply_writes_Cons apply_writes_notin)
  qed
qed

lemma fold_concat: "fold f (concat xss) = fold (fold f) xss"
  by (induction xss) simp_all

lemma merge_blocks_writes: "merge_blocks dst src = apply_writes (merge_writes src) dst"
  by (simp add: merge_blocks_def apply_writes_def merge_writes_def fold_concat fold_map comp_def)

lemma div_mod_lin:
  fixes a m n :: nat
  assumes "a < n"
  shows "(m * n + a) div n = m" and "(m * n + a) mod n = a"
  using assms by simp_all

lemma merge_src_decomp:
  assumes "qy < 2" "i < 8" "qx < 2" "j < 8"
  shows "merge_src ((qy * 8 + i) * 16 + qx * 8 + j) = 64 * (2 * qy + qx) + 8 * i + j"
proof -
  let ?q = "(qy * 8 + i) * 16 + qx * 8 + j"
  have a: "i * 16 + (qx * 8 + j) < 128" using assms by simp
  have b: "qx * 8 + j < 16" using assms by simp
  have q1: "?q = qy * 128 + (i * 16 + (qx * 8 + j))" by simp
  have q2: "?q = (qy * 8 + i) * 16 + (qx * 8 + j)" by simp
  have q3: "?q = ((qy * 8 + i) * 2 + qx) * 8 + j" by simp
  have 1: "?q div 128 = qy" by (simp only: q1 div_mod_lin [OF a])
  have 2: "?q mod 16 = qx * 8 + j" by (simp only: q2 div_mod_lin [OF b])
  have 3: "?q div 16 = qy * 8 + i" by (simp only: q2 div_mod_lin [OF b])
  have 4: "(qx * 8 + j) div 8 = qx" by (simp only: div_mod_lin [OF assms(4)])
  have 5: "(qy * 8 + i) mod 8 = i" by (simp only: div_mod_lin [OF assms(2)])
  have 6: "?q mod 8 = j" by (simp only: q3 div_mod_lin [OF assms(4)])
  show ?thesis
    unfolding merge_src_def 1 2 3 4 5 6 by simp
qed

lemma merge_writes_elim:
  assumes "(q, v) \<in> set (merge_writes src)"
  shows "v = src ! merge_src q"
proof -
  from assms obtain i j where ij: "i < 8" "j < 8"
    and m: "(q, v) \<in> {(i * 16 + j, src ! (i * 8 + j)), (8 + i * 16 + j, src ! (64 + i * 8 + j)),
                      (128 + i * 16 + j, src ! (128 + i * 8 + j)),
                      (136 + i * 16 + j, src ! (192 + i * 8 + j))}"
    unfolding merge_writes_def by fastforce
  have "merge_src (i * 16 + j) = i * 8 + j"
    using merge_src_decomp [of 0 i 0 j] ij by simp
  moreover have "merge_src (8 + i * 16 + j) = 64 + i * 8 + j"
    using merge_src_decomp [of 0 i 1 j] ij by (simp add: add.commute add.left_commute)
  moreover have "merge_src (128 + i * 16 + j) = 128 + i * 8 + j"
    using merge_src_decomp [of 1 i 0 j] ij by (simp add: add.commute add.left_commute)
  moreover have "merge_src (136 + i * 16 + j) = 192 + i * 8 + j"
    using merge_src_decomp [of 1 i 1 j] ij by (simp add: add.commute add.left_commute)
  ultimately show ?thesis
    using m by auto
qed

lemma merge_writes_intro:
  assumes "qy < 2" "i < 8" "qx < 2" "j < 8"
  shows "((qy * 8 + i) * 16 + qx * 8 + j, src ! (64 * (2 * qy + qx) + 8 * i + j)) \<in> set (merge_writes src)"
proof -
  have "qy = 0 \<or> qy = 1" "qx = 0 \<or> qx = 1" using assms by auto
  then show ?thesis
    using assms(2,4) unfolding merge_writes_def
    by (elim disjE) (fastforce simp: add.commute add.left_commute mult.commute)+
qed

lemma merge_blocks_nth:
  assumes "qy < 2" "i < 8" "qx < 2" "j < 8" "length dst = 256"
  shows "merge_blocks dst src ! ((qy * 8 + i) * 16 + qx * 8 + j) = src ! (64 * (2 * qy + qx) + 8 * i + j)"
  unfolding merge_blocks_writes
proof (rule apply_writes_in)
  show "((qy * 8 + i) * 16 + qx * 8 + j, src ! (64 * (2 * qy + qx) + 8 * i + j)) \<in> set (merge_writes src)"
    using assms(1-4) by (rule merge_writes_intro)
  show "v' = src ! (64 * (2 * qy + qx) + 8 * i + j)"
    if "((qy * 8 + i) * 16 + qx * 8 + j, v') \<in> set (merge_writes src)" for v'
    using merge_writes_elim [OF that] merge_src_decomp [OF assms(1-4)] by simp
  show "(qy * 8 + i) * 16 + qx * 8 + j < length dst"
    using assms by simp
qed

lemma length_merge_blocks: "length (merge_blocks dst src) = length dst"
  by (simp add: merge_blocks_writes length_apply_writes)

lemma length_subblock: "length (subblock YCoCg x y c) = 64"
  unfolding subblock_def Let_def
  by (subst length_concat_chunks [where k = 8]) simp_all

lemma subblock_nth:
  assumes "i < 8" "j < 8"
  shows "subblock YCoCg x y c ! (8 * i + j) = YCoCg ! ((y * 8 + i) * 48 + (x * 24 + c) + j * 3)"
proof -
  have "(8 * i + j) div 8 = i" "(8 * i + j) mod 8 = j" "8 * i + j < 8 * 8"
    using assms by simp_all
  then show ?thesis
    unfolding subblock_def Let_def
    using nth_concat_chunks [where n = 8 and k = 8 and j = "8 * i + j"
        and f = "\<lambda>i. map (\<lambda>k. YCoCg ! ((y * 8 + i) * 48 + (x * 24 + c) + k * 3)) [0..<8]"] assms
    by simp
qed

lemma index256_decomp:
  fixes p :: nat
  assumes "p < 256"
  obtains qy i qx j where "qy < 2" "i < 8" "qx < 2" "j < 8" "p = (qy * 8 + i) * 16 + qx * 8 + j"
proof
  let ?r = "p div 16" and ?c = "p mod 16"
  show "?r div 8 < 2" using assms by simp
  show "?r mod 8 < 8" by simp
  show "?c div 8 < 2" by simp
  show "?c mod 8 < 8" by simp
  have "?r = ?r div 8 * 8 + ?r mod 8" "?c = ?c div 8 * 8 + ?c mod 8" "p = ?r * 16 + ?c"
    by simp_all
  then show "p = (?r div 8 * 8 + ?r mod 8) * 16 + ?c div 8 * 8 + ?c mod 8"
    by (metis add.assoc)
qed

text \<open>
  C10. For every 768-entry YCoCg buffer and every channel c in {0, 1, 2}: the four quadrants
  extracted by \<open>subblock\<close> in the order (0,0), (1,0), (0,1), (1,1), stored one after the
  other in a 256-element array and passed to \<open>merge_blocks\<close>, give back the 16x16 plane
  of channel c, whatever the output buffer held before.
\<close>

theorem merge_blocks_subblock:
  assumes "length YCoCg = 768" and "c < 3" and "length dst = 256"
  shows "merge_blocks dst (subblock YCoCg 0 0 c @ subblock YCoCg 1 0 c @
                           subblock YCoCg 0 1 c @ subblock YCoCg 1 1 c) = plane YCoCg c"
proof (rule nth_equalityI)
  let ?src = "subblock YCoCg 0 0 c @ subblock YCoCg 1 0 c @ subblock YCoCg 0 1 c @ subblock YCoCg 1 1 c"
  show "length (merge_blocks dst ?src) = length (plane YCoCg c)"
    using assms by (simp add: length_merge_blocks plane_def)
  fix p assume "p < length (merge_blocks dst ?src)"
  then have p: "p < 256" using assms by (simp add: length_merge_blocks)
  then obtain qy i qx j where ij: "qy < 2" "i < 8" "qx < 2" "j < 8"
    and pe: "p = (qy * 8 + i) * 16 + qx * 8 + j"
    by (rule index256_decomp)
  have s: "?src ! (64 * (2 * qy + qx) + (8 * i + j)) = subblock YCoCg qx qy c ! (8 * i + j)"
  proof -
    have "8 * i + j < 64" using ij by simp
    moreover have "qy = 0 \<or> qy = 1" "qx = 0 \<or> qx = 1" using ij by auto
    ultimately show ?thesis
      by (elim disjE) (simp_all add: nth_append length_subblock)
  qed
  have "merge_blocks dst ?src ! p = ?src ! (64 * (2 * qy + qx) + 8 * i + j)"
    unfolding pe using ij assms(3) by (rule merge_blocks_nth)
  also have "\<dots> = subblock YCoCg qx qy c ! (8 * i + j)"
    using s by (simp add: add.assoc)
  also have "\<dots> = YCoCg ! ((qy * 8 + i) * 48 + (qx * 24 + c) + j * 3)"
    using ij by (simp add: subblock_nth)
  also have "\<dots> = YCoCg ! (p * 3 + c)"
    unfolding pe by (rule arg_cong [where f = "nth YCoCg"]) simp
  also have "\<dots> = plane YCoCg c ! p"
    using p by (simp add: plane_def)
  finally show "merge_blocks dst ?src ! p = plane YCoCg c ! p" .
qed

theorem merge_blocks_subblock_witness:
  "length (replicate 768 (5 :: i16)) = 768 \<and> (1 :: nat) < 3 \<and> length (replicate 256 (0 :: i16)) = 256 \<and>
   merge_blocks (replicate 256 0)
     (subblock (replicate 768 5) 0 0 1 @ subblock (replicate 768 5) 1 0 1 @
      subblock (replicate 768 5) 0 1 1 @ subblock (replicate 768 5) 1 1 1) = plane (replicate 768 5) 1"
proof -
  have h: "length (replicate 768 (5 :: i16)) = 768" "(1 :: nat) < 3" "length (replicate 256 (0 :: i16)) = 256"
    by simp_all
  show ?thesis
    using h merge_blocks_subblock [OF h] by simp
qed

section \<open>Block sampler: chroma subsampling\<close>

lemma length_subsample: "length (subsample YCoCg c) = 64"
  unfolding subsample_def Let_def
  by (subst length_concat_chunks [where k = 8]) simp_all

lemma subsample_nth:
  assumes "i < 8" "j < 8"
  shows "subsample YCoCg c ! (i * 8 + j) =
           to16 (asr 2 (int_of16 (YCoCg ! (((2 * i) * 16 + 2 * j) * 3 + c))
                      + int_of16 (YCoCg ! (((2 * i) * 16 + (2 * j + 1)) * 3 + c))
                      + int_of16 (YCoCg ! (((2 * i + 1) * 16 + 2 * j) * 3 + c))
                      + int_of16 (YCoCg ! (((2 * i + 1) * 16 + (2 * j + 1)) * 3 + c))))"
proof -
  let ?f = "\<lambda>r. map (\<lambda>k. to16 (asr 2 (int_of16 (YCoCg ! ((2 * r + 0) * 48 + c + (2 * k) * 3))
                                + int_of16 (YCoCg ! ((2 * r + 0) * 48 + c + (2 * k + 1) * 3))
                                + int_of16 (YCoCg ! ((2 * r + 1) * 48 + c + (2 * k) * 3))
                                + int_of16 (YCoCg ! ((2 * r + 1) * 48 + c + (2 * k + 1) * 3)))))
              [0..<8]"
  have s: "subsample YCoCg c = concat (map ?f [0..<8])"
    by (simp add: subsample_def Let_def)
  have "(i * 8 + j) div 8 = i" "(i * 8 + j) mod 8 = j" "i * 8 + j < 8 * 8"
    using assms by simp_all
  then have "concat (map ?f [0..<8]) ! (i * 8 + j) = ?f i ! j"
    using nth_concat_chunks [where n = 8 and k = 8 and j = "i * 8 + j" and f = ?f] by simp
  moreover have "(2 * i + 0) * 48 + c + (2 * j) * 3 = ((2 * i) * 16 + 2 * j) * 3 + c"
    "(2 * i + 0) * 48 + c + (2 * j + 1) * 3 = ((2 * i) * 16 + (2 * j + 1)) * 3 + c"
    "(2 * i + 1) * 48 + c + (2 * j) * 3 = ((2 * i + 1) * 16 + 2 * j) * 3 + c"
    "(2 * i + 1) * 48 + c + (2 * j + 1) * 3 = ((2 * i + 1) * 16 + (2 * j + 1)) * 3 + c"
    by simp_all
  ultimately show ?thesis
    using assms(2) unfolding s by (simp only: nth_map length_upt nth_upt add_0 minus_nat.diff_0)
qed

lemma sint_sum4_asr2:
  "sint (to16 (asr 2 (int_of16 a + int_of16 b + int_of16 c + int_of16 d))) =
     (sint a + sint b + sint c + sint d) div 4"
proof -
  note r = sint16_range [of a] sint16_range [of b] sint16_range [of c] sint16_range [of d]
  have 1: "sint (int_of16 a + int_of16 b) = sint a + sint b"
    by (rule sint_add16)
  have 2: "sint (int_of16 a + int_of16 b + int_of16 c) = sint a + sint b + sint c"
    using r by (subst sint_add32) (simp_all add: 1 sint_int_of16)
  have 3: "sint (int_of16 a + int_of16 b + int_of16 c + int_of16 d) = sint a + sint b + sint c + sint d"
    using r by (subst sint_add32) (simp_all add: 2 sint_int_of16)
  have 4: "sint (asr 2 (int_of16 a + int_of16 b + int_of16 c + int_of16 d)) =
      (sint a + sint b + sint c + sint d) div 4"
    by (simp add: sint_asr 3)
  show ?thesis
  proof (rule sint_to16_eq [OF 4])
    show "- 32768 \<le> (sint a + sint b + sint c + sint d) div 4" using r by linarith
    show "(sint a + sint b + sint c + sint d) div 4 < 32768" using r by linarith
  qed
qed

text \<open>
  C2 (as amended). For every 768-entry YCoCg buffer, both chroma channels and every output
  position (i, j) of the 8x8 result, \<open>subsample\<close> stores the sum of the four samples of
  the 2x2 neighbourhood shifted right by two, that is their sum divided by four and rounded
  down; no bias is added, in any column.
\<close>

theorem subsample_no_bias:
  assumes "length YCoCg = 768" and "c = 1 \<or> c = 2" and "i < 8" and "j < 8"
  shows "sint (subsample YCoCg c ! (i * 8 + j)) =
           (sint (YCoCg ! (((2 * i) * 16 + 2 * j) * 3 + c))
          + sint (YCoCg ! (((2 * i) * 16 + (2 * j + 1)) * 3 + c))
          + sint (YCoCg ! (((2 * i + 1) * 16 + 2 * j) * 3 + c))
          + sint (YCoCg ! (((2 * i + 1) * 16 + (2 * j + 1)) * 3 + c))) div 4"
  using assms(3,4) by (simp only: subsample_nth sint_sum4_asr2)

theorem subsample_no_bias_witness:
  "length ((replicate 768 0)[7 := 2 :: i16]) = 768 \<and> ((1 :: nat) = 1 \<or> (1 :: nat) = 2) \<and>
   (0 :: nat) < 8 \<and> (1 :: nat) < 8 \<and>
   sint (subsample ((replicate 768 0)[7 := 2]) 1 ! (0 * 8 + 1)) = 0"
proof -
  have h: "length ((replicate 768 0)[7 := 2 :: i16]) = 768" "(1 :: nat) = 1 \<or> (1 :: nat) = 2"
    "(0 :: nat) < 8" "(1 :: nat) < 8"
    by simp_all
  show ?thesis
    using h subsample_no_bias [OF h] by simp
qed

text \<open>
  The claim as stated, with a bias of 2 in the odd output columns, fails: in a block
  that is zero except for the value 2 at row 0, column 2 of channel 1, the code stores
  \<open>2 >> 2 = 0\<close> at output (0, 1), where the claimed formula gives \<open>(2 + 2) >> 2 = 1\<close>.
\<close>

theorem subsample_bias_counterexample:
  "subsample ((replicate 768 0)[7 := 2]) 1 ! (0 * 8 + 1) \<noteq>
   subsample_spec ((replicate 768 0)[7 := 2]) 1 0 1"
proof -
  have "subsample ((replicate 768 0)[7 := 2]) 1 ! (0 * 8 + 1) = 0"
    by (subst subsample_nth) (simp_all add: to16_def asr_def int_of16_def)
  moreover have "subsample_spec ((replicate 768 0)[7 := 2]) 1 0 1 = 1"
    by (simp add: subsample_spec_def subsample_bias_def to16_def asr_def int_of16_def)
  ultimately show ?thesis by simp
qed

section \<open>Quantization table\<close>

lemma sint_word_of_int32:
  "- 2147483648 \<le> k \<Longrightarrow> k < 2147483648 \<Longrightarrow> sint (word_of_int k :: i32) = k"
  by (simp add: sint_sbintrunc' signed_take_bit_int_eq_self)

lemma sint_mul32:
  "- 2147483648 \<le> sint a * sint b \<Longrightarrow> sint a * sint b < 2147483648 \<Longrightarrow>
     sint (a * b :: i32) = sint a * sint b"
  by (simp add: sint_word_mult signed_take_bit_int_eq_self)

lemma sdiv_nonneg: "0 \<le> (x :: int) \<Longrightarrow> 0 < y \<Longrightarrow> x sdiv y = x div y"
  by (simp add: signed_divide_int_def sgn_if)

lemma sdiv_neg: "(x :: int) < 0 \<Longrightarrow> 0 < y \<Longrightarrow> x sdiv y = - ((- x) div y)"
  by (simp add: signed_divide_int_def sgn_if)

lemma int_div_bounds:
  fixes x y :: int
  assumes "0 \<le> x" "0 < y"
  shows "0 \<le> x div y" and "x div y \<le> x"
proof -
  show "0 \<le> x div y" using assms by (simp add: pos_imp_zdiv_nonneg_iff)
  show "x div y \<le> x"
  proof (cases "x = 0")
    case False
    then have "0 < x" using assms by simp
    then show ?thesis by (rule int_div_le_self)
  qed simp
qed

lemma sint_cdiv_pos:
  assumes "0 < sint b"
  shows "sint (cdiv a b) = sint a sdiv sint b"
proof -
  have r: "- 2147483648 \<le> sint a" "sint a < 2147483648"
    using sint_ge [of a] sint_lt [of a] by simp_all
  have "- 2147483648 \<le> sint a sdiv sint b \<and> sint a sdiv sint b < 2147483648"
  proof (cases "0 \<le> sint a")
    case True
    then have "sint a sdiv sint b = sint a div sint b" using assms by (simp add: sdiv_nonneg)
    moreover have "sint a div sint b \<le> sint a" "0 \<le> sint a div sint b"
      using True assms by (simp_all add: int_div_bounds)
    ultimately show ?thesis using r by linarith
  next
    case False
    then have e: "sint a sdiv sint b = - ((- sint a) div sint b)" using assms by (simp add: sdiv_neg)
    have "(- sint a) div sint b \<le> - sint a" "0 \<le> (- sint a) div sint b"
      using False assms by (simp_all add: int_div_bounds)
    then
    show ?thesis using r e by linarith
  qed
  then show ?thesis
    by (simp add: cdiv_def sint_word_of_int32)
qed

text \<open>The clamped quality and the scale factor, as 32-bit values of the code.\<close>

lemma quality_scale_sint:
  fixes quality0 :: i32
  defines "quality1 \<equiv> (if quality0 <s 1 then 1 else quality0)"
  defines "quality \<equiv> (if 100 <s quality1 then 100 else quality1)"
  defines "q \<equiv> to16 (if quality <s 50 then cdiv 5000 quality else 200 - quality * 2)"
  shows "sint q = quality_scale_spec (sint quality0)"
    and "0 \<le> sint q" and "sint q \<le> 5000"
proof -
  define k where "k = max 1 (min 100 (sint quality0))"
  have k: "sint quality = k"
    by (auto simp: quality_def quality1_def k_def word_sless_alt)
  have kr: "1 \<le> k" "k \<le> 100" by (simp_all add: k_def)
  have "sint (if quality <s 50 then cdiv 5000 quality else 200 - quality * 2) =
      (if k < 50 then 5000 div k else 200 - 2 * k)"
  proof (cases "k < 50")
    case True
    have "sint (cdiv 5000 quality) = 5000 sdiv k"
      using kr by (subst sint_cdiv_pos) (simp_all add: k)
    also have "\<dots> = 5000 div k" using kr by (simp add: sdiv_nonneg)
    finally show ?thesis using True by (simp add: word_sless_alt k)
  next
    case False
    have "sint (quality * 2) = k * 2"
      using kr by (subst sint_mul32) (simp_all add: k)
    then have "sint (200 - quality * 2) = 200 - 2 * k"
      using kr by (subst sint_sub32) simp_all
    then show ?thesis using False by (simp add: word_sless_alt k)
  qed
  moreover have b: "0 \<le> (if k < 50 then 5000 div k else 200 - 2 * k)"
    "(if k < 50 then 5000 div k else 200 - 2 * k) \<le> 5000"
    using kr int_div_bounds [of 5000 k] by simp_all
  ultimately have e: "sint q = (if k < 50 then 5000 div k else 200 - 2 * k)"
    unfolding q_def by (intro sint_to16_eq) simp_all
  then show "sint q = quality_scale_spec (sint quality0)"
    by (simp only: quality_scale_spec_def Let_def k_def [symmetric])
  from e b show "0 \<le> sint q" "sint q \<le> 5000"
    by simp_all
qed

lemma qmin_qmax_sint:
  "sint (to16 (qmin (qmax c 1) 255)) = min (max (sint c) 1) 255"
proof -
  have "sint (qmin (qmax c 1) 255) = min (max (sint c) 1) 255"
    by (auto simp: qmin_def qmax_def word_sless_alt)
  then show ?thesis
    by (intro sint_to16_eq) simp_all
qed

lemma clamp_sdiv_div:
  fixes x :: int
  shows "min (max (x sdiv 100) 1) 255 = max 1 (min 255 (x div 100))"
proof (cases "0 \<le> x")
  case True
  then show ?thesis by (simp add: sdiv_nonneg)
next
  case False
  then have "x sdiv 100 = - ((- x) div 100)" by (simp add: sdiv_neg)
  moreover have "0 \<le> (- x) div 100" using False by (simp add: pos_imp_zdiv_nonneg_iff)
  moreover have "x div 100 < 0" using False by (simp add: neg_imp_zdiv_neg_iff)
  ultimately show ?thesis by simp
qed

lemma sdiv100_range:
  fixes x :: int
  assumes "- 3276800 \<le> x" "x \<le> 3276799"
  shows "- 32768 \<le> x sdiv 100 \<and> x sdiv 100 < 32768"
proof (cases "0 \<le> x")
  case True
  then have "x sdiv 100 = x div 100" by (simp add: sdiv_nonneg)
  then show ?thesis using True assms by linarith
next
  case False
  then have "x sdiv 100 = - ((- x) div 100)" by (simp add: sdiv_neg)
  then show ?thesis using False assms by linarith
qed

lemma quantization_table_bounds:
  assumes "i < 64"
  shows "1 \<le> sint (quantization_table Qbase quality ! i)"
    and "sint (quantization_table Qbase quality ! i) \<le> 255"
  using assms by (simp_all add: quantization_table_def Let_def qmin_qmax_sint)

text \<open>
  C5 (as amended). For every integer quality (values outside [1, 100] are clamped first) and
  every 64-entry base table: every entry of the result of \<open>quantization_table\<close> lies in
  [1, 255]; for every entry whose scaled value \<open>(Qbase[i] * q + 50) / 100\<close> fits the
  \<open>int16_t\<close> variable that holds it, the result is
  \<open>clamp ((Qbase[i] * q + 50) / 100, 1, 255)\<close> with \<open>q = 5000 / quality\<close> below 50 and
  \<open>200 - 2 * quality\<close> otherwise; the scaled value fits for every entry when the quality
  is 50 or more, and at every quality for the entries with \<open>Qbase[i]\<close> in [-655, 655];
  and at quality 50 every entry with \<open>Qbase[i]\<close> in [1, 255] is reproduced unchanged.
\<close>

theorem quantization_table_formula:
  assumes "length Qbase = 64" and "i < 64"
  shows "1 \<le> sint (quantization_table Qbase quality ! i) \<and>
         sint (quantization_table Qbase quality ! i) \<le> 255 \<and>
         (- 32768 \<le> (sint (Qbase ! i) * quality_scale_spec (sint quality) + 50) sdiv 100 \<and>
          (sint (Qbase ! i) * quality_scale_spec (sint quality) + 50) sdiv 100 \<le> 32767 \<longrightarrow>
            sint (quantization_table Qbase quality ! i) = quantization_spec (sint (Qbase ! i)) (sint quality)) \<and>
         (50 \<le> sint quality \<longrightarrow>
            sint (quantization_table Qbase quality ! i) = quantization_spec (sint (Qbase ! i)) (sint quality)) \<and>
         (- 655 \<le> sint (Qbase ! i) \<and> sint (Qbase ! i) \<le> 655 \<longrightarrow>
            sint (quantization_table Qbase quality ! i) = quantization_spec (sint (Qbase ! i)) (sint quality)) \<and>
         (1 \<le> sint (Qbase ! i) \<and> sint (Qbase ! i) \<le> 255 \<longrightarrow>
            quantization_table Qbase 50 ! i = Qbase ! i)"
proof -
  define q where "q quality0 = to16 (if (if 100 <s (if quality0 <s 1 then 1 else quality0) then 100
                        else (if quality0 <s 1 then 1 else quality0)) <s 50
               then cdiv 5000 (if 100 <s (if quality0 <s 1 then 1 else quality0) then 100
                        else (if quality0 <s 1 then 1 else quality0))
               else 200 - (if 100 <s (if quality0 <s 1 then 1 else quality0) then 100
                        else (if quality0 <s 1 then 1 else quality0)) * 2)" for quality0 :: i32
  define c where "c quality0 = to16 (cdiv (int_of16 (Qbase ! i) * int_of16 (q quality0) + 50) 100)" for quality0
  define b where "b = sint (Qbase ! i)"
  have qs: "sint (q quality0) = quality_scale_spec (sint quality0)" "0 \<le> sint (q quality0)"
    "sint (q quality0) \<le> 5000" for quality0
    unfolding q_def by (rule quality_scale_sint)+
  have out: "quantization_table Qbase quality0 ! i = to16 (qmin (qmax (int_of16 (c quality0)) 1) 255)"
    for quality0
    using assms(2) by (simp add: quantization_table_def Let_def c_def q_def)
  have s: "sint (quantization_table Qbase quality0 ! i) = min (max (sint (c quality0)) 1) 255"
    for quality0
    by (simp only: out qmin_qmax_sint sint_int_of16)
  have br: "- 32768 \<le> b" "b < 32768"
    using sint16_range [of "Qbase ! i"] by (simp_all add: b_def)
  have prod: "sint (int_of16 (Qbase ! i) * int_of16 (q quality0) + 50) = b * sint (q quality0) + 50"
    for quality0
  proof -
    have lo: "- 163840000 \<le> b * sint (q quality0)"
    proof -
      have "- 32768 * sint (q quality0) \<le> b * sint (q quality0)"
        using br qs(2) [of quality0] by (intro mult_right_mono) simp_all
      moreover have "32768 * sint (q quality0) \<le> 32768 * 5000"
        using qs(3) [of quality0] by simp
      ultimately show ?thesis by linarith
    qed
    have hi: "b * sint (q quality0) \<le> 163840000"
    proof -
      have "b * sint (q quality0) \<le> 32768 * sint (q quality0)"
        using br qs(2) [of quality0] by (intro mult_right_mono) simp_all
      moreover have "32768 * sint (q quality0) \<le> 32768 * 5000"
        using qs(3) [of quality0] by simp
      ultimately show ?thesis by linarith
    qed
    have m: "sint (int_of16 (Qbase ! i) * int_of16 (q quality0)) = b * sint (q quality0)"
      using lo hi by (subst sint_mul32) (simp_all add: sint_int_of16 b_def)
    show ?thesis
      using lo hi by (subst sint_add32) (simp_all add: m)
  qed
  have c32: "sint (cdiv (int_of16 (Qbase ! i) * int_of16 (q quality0) + 50) 100) =
      (b * sint (q quality0) + 50) sdiv 100" for quality0
    by (subst sint_cdiv_pos) (simp_all add: prod)
  have fits: "sint (quantization_table Qbase quality0 ! i) = quantization_spec b (sint quality0)"
    if "- 32768 \<le> (b * quality_scale_spec (sint quality0) + 50) sdiv 100"
      "(b * quality_scale_spec (sint quality0) + 50) sdiv 100 \<le> 32767" for quality0
  proof -
    let ?x = "b * sint (q quality0) + 50"
    have "- 32768 \<le> ?x sdiv 100 \<and> ?x sdiv 100 < 32768"
      using that by (simp add: qs(1))
    then have "sint (c quality0) = ?x sdiv 100"
      unfolding c_def by (intro sint_to16_eq) (simp_all add: c32)
    then show ?thesis
      by (simp add: s clamp_sdiv_div quantization_spec_def qs(1))
  qed
  have scaled: "- 32768 \<le> (b * quality_scale_spec (sint quality0) + 50) sdiv 100 \<and>
      (b * quality_scale_spec (sint quality0) + 50) sdiv 100 \<le> 32767"
    if "- B \<le> b" "b \<le> B" "quality_scale_spec (sint quality0) \<le> S" "0 \<le> B" "B * S \<le> 3276749"
    for quality0 :: i32 and B S
  proof -
    let ?s = "quality_scale_spec (sint quality0)"
    have s0: "0 \<le> ?s" using qs(1,2) [of quality0] by simp
    have "- B * ?s \<le> b * ?s" using that(1) s0 by (intro mult_right_mono) simp_all
    moreover have "b * ?s \<le> B * ?s" using that(2) s0 by (intro mult_right_mono) simp_all
    moreover have "B * ?s \<le> B * S" using that(3,4) by (intro mult_left_mono) simp_all
    ultimately have "- 3276800 \<le> b * ?s + 50" "b * ?s + 50 \<le> 3276799"
      using that(5) by linarith+
    then have "- 32768 \<le> (b * ?s + 50) sdiv 100 \<and> (b * ?s + 50) sdiv 100 < 32768"
      by (rule sdiv100_range)
    then show ?thesis by simp
  qed
  have high: "sint (quantization_table Qbase quality0 ! i) = quantization_spec b (sint quality0)"
    if "50 \<le> sint quality0" for quality0
  proof -
    have "quality_scale_spec (sint quality0) \<le> 100"
      using that by (simp add: quality_scale_spec_def Let_def)
    moreover have "- 32767 \<le> b \<or> b = - 32768" using br by linarith
    ultimately have "- 32768 \<le> (b * quality_scale_spec (sint quality0) + 50) sdiv 100 \<and>
        (b * quality_scale_spec (sint quality0) + 50) sdiv 100 \<le> 32767"
    proof (elim disjE)
      assume "quality_scale_spec (sint quality0) \<le> 100" "- 32767 \<le> b"
      then show ?thesis using br by (intro scaled [where B = 32767 and S = 100]) simp_all
    next
      let ?s = "quality_scale_spec (sint quality0)"
      assume a: "?s \<le> 100" "b = - 32768"
      have s0: "0 \<le> ?s" using qs(1,2) [of quality0] by simp
      have "- 3276800 \<le> b * ?s + 50" "b * ?s + 50 \<le> 3276799"
        using a s0 by simp_all
      then have "- 32768 \<le> (b * ?s + 50) sdiv 100 \<and> (b * ?s + 50) sdiv 100 < 32768"
        by (rule sdiv100_range)
      then show ?thesis by simp
    qed
    then show ?thesis by (intro fits) simp_all
  qed
  have formula: "sint (quantization_table Qbase quality0 ! i) = quantization_spec b (sint quality0)"
    if "- 655 \<le> b" "b \<le> 655" for quality0
  proof -
    have "quality_scale_spec (sint quality0) \<le> 5000"
      using qs(1,3) [of quality0] by simp
    then have "- 32768 \<le> (b * quality_scale_spec (sint quality0) + 50) sdiv 100 \<and>
        (b * quality_scale_spec (sint quality0) + 50) sdiv 100 \<le> 32767"
      using that by (intro scaled [where B = 655 and S = 5000]) simp_all
    then show ?thesis by (intro fits) simp_all
  qed
  have ident: "quantization_table Qbase 50 ! i = Qbase ! i" if "1 \<le> b" "b \<le> 255"
  proof -
    have "sint (quantization_table Qbase 50 ! i) = quantization_spec b (sint (50 :: i32))"
      using that by (intro formula) simp_all
    also have "\<dots> = b"
      using that by (simp add: quantization_spec_def quality_scale_spec_def)
    finally show ?thesis
      by (intro word_eq_sintI) (simp add: b_def)
  qed
  show ?thesis
    using fits [of quality] high [of quality] formula [of quality] ident
    by (simp add: s b_def)
qed

theorem quantization_table_formula_witness:
  "length JPEGLumaQuant = 64 \<and> (1 :: nat) < 64 \<and>
   1 \<le> sint (quantization_table JPEGLumaQuant 75 ! 1) \<and>
   sint (quantization_table JPEGLumaQuant 75 ! 1) \<le> 255 \<and>
   - 32768 \<le> (sint (JPEGLumaQuant ! 1) * quality_scale_spec (sint (75 :: i32)) + 50) sdiv 100 \<and>
   (sint (JPEGLumaQuant ! 1) * quality_scale_spec (sint (75 :: i32)) + 50) sdiv 100 \<le> 32767 \<and>
   50 \<le> sint (75 :: i32) \<and>
   - 655 \<le> sint (JPEGLumaQuant ! 1) \<and> sint (JPEGLumaQuant ! 1) \<le> 655 \<and>
   sint (quantization_table JPEGLumaQuant 75 ! 1) = quantization_spec (sint (JPEGLumaQuant ! 1)) (sint (75 :: i32)) \<and>
   1 \<le> sint (JPEGLumaQuant ! 1) \<and> sint (JPEGLumaQuant ! 1) \<le> 255 \<and>
   quantization_table JPEGLumaQuant 50 ! 1 = JPEGLumaQuant ! 1"
proof -
  have h: "length JPEGLumaQuant = 64" "(1 :: nat) < 64"
    by (simp_all add: JPEGLumaQuant_def)
  have b: "sint (JPEGLumaQuant ! 1) = 11"
    by (simp add: JPEGLumaQuant_def)
  have f: "(11 * quality_scale_spec (sint (75 :: i32)) + 50) sdiv 100 = 6"
    by (simp add: quality_scale_spec_def signed_divide_int_def)
  show ?thesis
    using h b f quantization_table_formula [OF h, of 75] by simp
qed

text \<open>
  The claim as stated, for every base table, fails twice. With \<open>Qbase[0] = 1000\<close> and
  quality 1 the scaled value 50000 does not fit the \<open>int16_t\<close> variable \<open>c\<close>, which
  holds -15536, and the entry becomes 1 where the formula gives 255. With
  \<open>Qbase[0] = 300\<close> and quality 50 the entry is clamped to 255 and the base table is not
  reproduced.
\<close>

theorem quantization_table_counterexample:
  "sint (quantization_table (replicate 64 1000) 1 ! 0) \<noteq>
     quantization_spec (sint (replicate 64 (1000 :: i16) ! 0)) (sint (1 :: i32)) \<and>
   quantization_table (replicate 64 300) 50 ! 0 \<noteq> replicate 64 300 ! 0"
proof -
  have "sint (quantization_table (replicate 64 1000) 1 ! 0) = 1"
    by (simp add: quantization_table_def Let_def to16_def int_of16_def cdiv_def qmin_def qmax_def
        signed_divide_int_def word_sless_alt)
  moreover have "quantization_spec (sint (replicate 64 (1000 :: i16) ! 0)) (sint (1 :: i32)) = 255"
    by (simp add: quantization_spec_def quality_scale_spec_def)
  moreover have "quantization_table (replicate 64 300) 50 ! 0 = 255"
    by (simp add: quantization_table_def Let_def to16_def int_of16_def cdiv_def qmin_def qmax_def
        signed_divide_int_def word_sless_alt)
  ultimately show ?thesis by simp
qed

section \<open>Encoder layout\<close>

lemma fdct8x8iq_base_Some:
  assumes "\<forall>i<64. quant ! i \<noteq> 0"
  shows "\<exists>dst. fdct8x8iq_base src quant = Some dst \<and> length dst = 64"
  using assms by (simp add: fdct8x8iq_base_def Let_def)

text \<open>
  C8. For every 16x16 RGBA input and quantization tables (tables without a zero entry: the
  transform divides by every entry), \<open>encode16x16i\<close> returns a 256-entry luma buffer
  whose 64 entries from offset \<open>k * 64\<close>, \<open>k = qy * 2 + qx\<close>, are the quantized
  forward DCT of luma quadrant (qx, qy): the quadrants are stored in the order (0,0),
  (1,0), (0,1), (1,1).
\<close>

theorem encode16x16i_luma_layout:
  assumes "length RGBA = 1024" and "length Qluma = 64" and "length Qchroma = 64"
    and "\<forall>i<64. Qluma ! i \<noteq> 0" and "\<forall>i<64. Qchroma ! i \<noteq> 0"
  shows "\<exists>Y Co Cg A. encode16x16i Qluma Qchroma RGBA = Some (Y, Co, Cg, A) \<and> length Y = 256 \<and>
           (\<forall>qx<2. \<forall>qy<2.
              fdct8x8iq_base (subblock (fst (rgba_to_ycocga RGBA)) qx qy 0) Qluma =
                Some (take 64 (drop ((qy * 2 + qx) * 64) Y)))"
proof -
  let ?YCoCg = "fst (rgba_to_ycocga RGBA)"
  obtain Y00 where y00: "fdct8x8iq_base (subblock ?YCoCg 0 0 0) Qluma = Some Y00" "length Y00 = 64"
    using fdct8x8iq_base_Some [OF assms(4)] by blast
  obtain Y10 where y10: "fdct8x8iq_base (subblock ?YCoCg 1 0 0) Qluma = Some Y10" "length Y10 = 64"
    using fdct8x8iq_base_Some [OF assms(4)] by blast
  obtain Y01 where y01: "fdct8x8iq_base (subblock ?YCoCg 0 1 0) Qluma = Some Y01" "length Y01 = 64"
    using fdct8x8iq_base_Some [OF assms(4)] by blast
  obtain Y11 where y11: "fdct8x8iq_base (subblock ?YCoCg 1 1 0) Qluma = Some Y11" "length Y11 = 64"
    using fdct8x8iq_base_Some [OF assms(4)] by blast
  obtain Co where co: "fdct8x8iq_base (subsample ?YCoCg 1) Qchroma = Some Co"
    using fdct8x8iq_base_Some [OF assms(5)] by blast
  obtain Cg where cg: "fdct8x8iq_base (subsample ?YCoCg 2) Qchroma = Some Cg"
    using fdct8x8iq_base_Some [OF assms(5)] by blast
  let ?Y = "Y00 @ Y10 @ Y01 @ Y11"
  have enc: "encode16x16i Qluma Qchroma RGBA = Some (?Y, Co, Cg, snd (rgba_to_ycocga RGBA))"
    unfolding encode16x16i_def Let_def y00(1) y10(1) y01(1) y11(1) co cg by simp
  have len: "length ?Y = 256"
    by (simp add: y00 y10 y01 y11)
  have lay: "fdct8x8iq_base (subblock ?YCoCg qx qy 0) Qluma = Some (take 64 (drop ((qy * 2 + qx) * 64) ?Y))"
    if "qx < 2" "qy < 2" for qx qy :: nat
  proof -
    have "qx = 0 \<or> qx = 1" "qy = 0 \<or> qy = 1" using that by auto
    then show ?thesis
      using y00 y10 y01 y11 by (elim disjE) simp_all
  qed
  show ?thesis
    using enc len lay by blast
qed

theorem encode16x16i_luma_layout_witness:
  "length (replicate 1024 (200 :: u8)) = 1024 \<and> length (replicate 64 (1 :: i16)) = 64 \<and>
   replicate 64 (1 :: i16) ! 63 \<noteq> 0 \<and>
   (\<exists>Y Co Cg A. encode16x16i (replicate 64 1) (replicate 64 1) (replicate 1024 200) = Some (Y, Co, Cg, A) \<and>
      length Y = 256 \<and>
      (1 :: nat) < 2 \<and> (0 :: nat) < 2 \<and>
      fdct8x8iq_base (subblock (fst (rgba_to_ycocga (replicate 1024 200))) 1 0 0) (replicate 64 1) =
        Some (take 64 (drop ((0 * 2 + 1) * 64) Y)))"
proof -
  have h: "length (replicate 1024 (200 :: u8)) = 1024" "length (replicate 64 (1 :: i16)) = 64"
    "length (replicate 64 (1 :: i16)) = 64"
    "\<forall>i<64. replicate 64 (1 :: i16) ! i \<noteq> 0" "\<forall>i<64. replicate 64 (1 :: i16) ! i \<noteq> 0"
    by simp_all
  from encode16x16i_luma_layout [OF h]
  obtain Y Co Cg A where
    e: "encode16x16i (replicate 64 1) (replicate 64 1) (replicate 1024 200) = Some (Y, Co, Cg, A)"
      "length Y = 256"
    and l: "\<forall>qx<2. \<forall>qy<2.
              fdct8x8iq_base (subblock (fst (rgba_to_ycocga (replicate 1024 200))) qx qy 0) (replicate 64 1) =
                Some (take 64 (drop ((qy * 2 + qx) * 64) Y))"
    by blast
  have "fdct8x8iq_base (subblock (fst (rgba_to_ycocga (replicate 1024 200))) 1 0 0) (replicate 64 1) =
        Some (take 64 (drop ((0 * 2 + 1) * 64) Y))"
    using l [rule_format, of 1 0] by simp
  with e h show ?thesis
    by (intro conjI exI [of _ Y] exI [of _ Co] exI [of _ Cg] exI [of _ A]) simp_all
qed

section \<open>Integer DCT with an all-ones table\<close>






lemma asr_0: "asr n 0 = 0"
  by (simp add: asr_def)
























section \<open>Soundness of the affine forms\<close>

lemma dot_Nil [simp]: "dot [] x = 0" "dot c [] = 0"
  by (simp_all add: dot_def)

lemma dot_Cons [simp]: "dot (a # c) (y # x) = a * y + dot c x"
  by (simp add: dot_def)


















section \<open>The transforms on affine forms\<close>



























section \<open>The error of the round trip\<close>










section \<open>Floating-point rounding\<close>

lemma bit_length_bounds: "0 < n \<Longrightarrow> 2 ^ (bit_length n - 1) \<le> n \<and> n < 2 ^ bit_length n"
proof (induction n rule: bit_length.induct)
  case (1 n)
  show ?case
  proof (cases "n div 2 \<le> 0")
    case True
    then have "n = 1" using "1.prems" by linarith
    moreover have "bit_length 1 = Suc 0"
      by (simp add: bit_length.simps [of 1] bit_length.simps [of 0])
    ultimately show ?thesis by simp
  next
    case False
    then have ih: "2 ^ (bit_length (n div 2) - 1) \<le> n div 2" "n div 2 < 2 ^ bit_length (n div 2)"
      using "1.IH" "1.prems" by simp_all
    have pos: "0 < bit_length (n div 2)"
      using False by (simp add: bit_length.simps [of "n div 2"])
    have bl: "bit_length n = Suc (bit_length (n div 2))"
      using "1.prems" by (simp add: bit_length.simps [of n])
    have "(2 :: int) ^ (bit_length n - 1) = 2 * 2 ^ (bit_length (n div 2) - 1)"
      using pos by (simp add: bl power_eq_if)
    also have "\<dots> \<le> 2 * (n div 2)" using ih(1) by simp
    also have "\<dots> \<le> n" by simp
    finally have lo: "2 ^ (bit_length n - 1) \<le> n" .
    have "n < 2 * (n div 2) + 2" by presburger
    also have "\<dots> \<le> 2 * 2 ^ bit_length (n div 2)" using ih(2) by simp
    finally have hi: "n < 2 ^ bit_length n" by (simp add: bl)
    show ?thesis using lo hi by simp
  qed
qed

lemma ilog2_bounds:
  assumes "0 < x"
  shows "2 powi (ilog2 x) \<le> x" and "x < 2 powi (ilog2 x + 1)"
proof -
  have "2 powi (ilog2 x) \<le> x \<and> x < 2 powi (ilog2 x + 1)"
  proof (cases "1 \<le> x")
    case True
    define n where "n = \<lfloor>x\<rfloor>"
    have n: "0 < n" "of_int n \<le> x" "x < of_int n + 1"
      using True unfolding n_def by linarith+
    have e: "ilog2 x = int (bit_length n) - 1" using True by (simp add: ilog2_def n_def)
    have b: "2 ^ (bit_length n - 1) \<le> n" "n < 2 ^ bit_length n"
      using bit_length_bounds [OF n(1)] by simp_all
    have pos: "0 < bit_length n" using b(2) n(1) by (cases "bit_length n") simp_all
    have "(2 :: real) powi (int (bit_length n) - 1) = 2 ^ (bit_length n - 1)"
      using pos by (simp add: power_int_def nat_diff_distrib')
    also have "\<dots> = of_int (2 ^ (bit_length n - 1))" by simp
    also have "\<dots> \<le> of_int n" using b(1) by (simp only: of_int_le_iff)
    finally have lo: "2 powi (ilog2 x) \<le> x" using n(2) by (simp add: e)
    have "n + 1 \<le> 2 ^ bit_length n" using b(2) by simp
    then have "(of_int (n + 1) :: real) \<le> of_int (2 ^ bit_length n)" by (simp only: of_int_le_iff)
    then have "of_int n + 1 \<le> (2 :: real) ^ bit_length n" by simp
    then have hi: "x < 2 powi (ilog2 x + 1)" using n(3) by (simp add: e)
    show ?thesis using lo hi by simp
  next
    case False
    then have x1: "x < 1" by simp
    define m where "m = \<lceil>1 / x\<rceil> - 1"
    have "1 < 1 / x" using assms x1 by simp
    then have c: "2 \<le> \<lceil>1 / x\<rceil>" by linarith
    have m: "0 < m" "of_int m < 1 / x" "1 / x \<le> of_int m + 1"
      using c unfolding m_def by (linarith, linarith, simp)
    have e: "ilog2 x = - int (bit_length m)" using False by (simp add: ilog2_def m_def)
    have b: "2 ^ (bit_length m - 1) \<le> m" "m < 2 ^ bit_length m"
      using bit_length_bounds [OF m(1)] by simp_all
    have pos: "0 < bit_length m" using b(2) m(1) by (cases "bit_length m") simp_all
    have "m + 1 \<le> 2 ^ bit_length m" using b(2) by simp
    then have "(of_int (m + 1) :: real) \<le> of_int (2 ^ bit_length m)" by (simp only: of_int_le_iff)
    then have "of_int m + 1 \<le> (2 :: real) ^ bit_length m" by simp
    then have "1 / x \<le> 2 ^ bit_length m" using m(3) by linarith
    then have "1 / 2 ^ bit_length m \<le> x"
      using assms by (simp add: field_simps)
    then have lo: "2 powi (ilog2 x) \<le> x"
      by (simp add: e power_int_minus inverse_eq_divide)
    have "(of_int (2 ^ (bit_length m - 1)) :: real) \<le> of_int m"
      using b(1) by (simp only: of_int_le_iff)
    then have "(2 :: real) ^ (bit_length m - 1) \<le> of_int m" by simp
    then have "2 ^ (bit_length m - 1) < 1 / x" using m(2) by linarith
    then have "x < 1 / 2 ^ (bit_length m - 1)"
      using assms by (simp add: field_simps)
    moreover have "(2 :: real) powi (- int (bit_length m) + 1) = 1 / 2 ^ (bit_length m - 1)"
      using pos by (simp add: power_int_def nat_diff_distrib' inverse_eq_divide power_divide)
    ultimately have hi: "x < 2 powi (ilog2 x + 1)" by (simp add: e)
    show ?thesis using lo hi by simp
  qed
  then show "2 powi (ilog2 x) \<le> x" and "x < 2 powi (ilog2 x + 1)" by simp_all
qed

lemma rne_error: "\<bar>of_int (rne y) - y\<bar> \<le> 1 / 2"
  unfolding rne_def Let_def by (auto simp: abs_le_iff; linarith)

lemma powi2_less_imp: "(2 :: real) powi a < 2 powi b \<Longrightarrow> a < b"
proof (rule ccontr)
  assume l: "(2 :: real) powi a < 2 powi b" and "\<not> a < b"
  then have "b \<le> a" by simp
  then have "(2 :: real) powi b \<le> 2 powi a" by (intro power_int_increasing) simp_all
  with l show False by simp
qed

lemma fl_round_normal:
  assumes "2 powi emin \<le> \<bar>x\<bar>" and "\<bar>x\<bar> \<le> 2 powi emax" and "0 < p"
  shows "\<exists>y. fl_round p emin emax x = Some y \<and> \<bar>y - x\<bar> \<le> 2 powi (- int p) * \<bar>x\<bar>"
proof -
  have xpos: "0 < \<bar>x\<bar>"
    using assms(1) zero_less_power_int [of "2 :: real" emin] by linarith
  then have x0: "x \<noteq> 0" by simp
  define e where "e = ilog2 \<bar>x\<bar>"
  have eb: "2 powi e \<le> \<bar>x\<bar>" "\<bar>x\<bar> < 2 powi (e + 1)"
    unfolding e_def using ilog2_bounds [OF xpos] by simp_all
  have "(2 :: real) powi emin < 2 powi (e + 1)" using assms(1) eb(2) by linarith
  then have "emin < e + 1" by (rule powi2_less_imp)
  then have me: "max e emin = e" by simp
  define u :: real where "u = 2 powi (e - int p + 1)"
  define y where "y = of_int (rne (x / u)) * u"
  have upos: "0 < u" by (simp add: u_def)
  have "y - x = (of_int (rne (x / u)) - x / u) * u"
    using upos by (simp add: y_def field_simps)
  then have "\<bar>y - x\<bar> = \<bar>of_int (rne (x / u)) - x / u\<bar> * u"
    using upos by (simp add: abs_mult)
  also have "\<dots> \<le> 1 / 2 * u"
    using rne_error [of "x / u"] upos by (intro mult_right_mono) simp_all
  also have "1 / 2 * u = 2 powi (- int p) * 2 powi e"
  proof -
    have "u = 2 powi (e - int p) * 2"
      unfolding u_def by (simp add: power_int_add)
    moreover have "(2 :: real) powi (e - int p) = 2 powi (- int p) * 2 powi e"
      by (simp add: power_int_add [symmetric])
    ultimately show ?thesis by simp
  qed
  also have "\<dots> \<le> 2 powi (- int p) * \<bar>x\<bar>"
    using eb(1) by (intro mult_left_mono) simp_all
  finally have err: "\<bar>y - x\<bar> \<le> 2 powi (- int p) * \<bar>x\<bar>" .
  have small: "(2 :: real) powi (- int p) < 1"
  proof -
    have "(2 :: real) powi (- int p) < 2 powi 0"
      using assms(3) by (intro power_int_strict_increasing) simp_all
    then show ?thesis by simp
  qed
  have "\<bar>y\<bar> \<le> \<bar>x\<bar> + \<bar>y - x\<bar>" by simp
  also have "\<dots> \<le> \<bar>x\<bar> + 2 powi (- int p) * \<bar>x\<bar>" using err by simp
  also have "\<dots> < \<bar>x\<bar> + 1 * \<bar>x\<bar>"
    using small xpos by (intro add_strict_left_mono mult_strict_right_mono) simp_all
  also have "\<dots> \<le> 2 * 2 powi emax" using assms(2) by simp
  also have "\<dots> = 2 powi (emax + 1)" by (simp add: power_int_add)
  finally have "\<not> 2 powi (emax + 1) \<le> \<bar>y\<bar>" by simp
  then have "fl_round p emin emax x = Some y"
    using x0 by (simp add: fl_round_def Let_def e_def [symmetric] me u_def [symmetric] y_def [symmetric])
  with err show ?thesis by blast
qed

lemma AAN_float_values: "map round32 AAN_literals = map Some AANScaleFactor_float"
  unfolding AAN_literals_def AANScaleFactor_float_def round32_def by code_simp

lemma those_map_Some:
  "(\<And>x. x \<in> set xs \<Longrightarrow> f x \<noteq> None) \<Longrightarrow> those (map f xs) = Some (map (\<lambda>x. the (f x)) xs)"
proof (induction xs)
  case Nil
  then show ?case by simp
next
  case (Cons a xs)
  then obtain y where "f a = Some y" by auto
  moreover have "those (map f xs) = Some (map (\<lambda>x. the (f x)) xs)"
    using Cons by simp
  ultimately show ?case by simp
qed

text \<open>Rounding a value that approximates a reference value of moderate size.\<close>

lemma round_step:
  assumes ax: "\<bar>x - x0\<bar> \<le> a * x0" and r: "1 / 1000000 \<le> x0" "x0 \<le> 1000000"
    and a: "0 \<le> a" "a \<le> 1 / 1000000"
    and p: "0 < p" "2 powi (- int p) * (1 + 1 / 1000000) \<le> e"
    and rng: "(2 :: real) powi emin \<le> 1 / 10000000" "10000000 \<le> (2 :: real) powi emax"
  shows "\<exists>y. fl_round p emin emax x = Some y \<and> \<bar>y - x0\<bar> \<le> (a + e) * x0"
proof -
  have x0: "0 < x0" using r(1) by (simp add: less_le_trans [of 0 "1 / 1000000"])
  have "a * x0 \<le> 1 / 1000000 * x0" using a x0 by (intro mult_right_mono) simp_all
  then have ax0: "a * x0 \<le> x0 / 1000000" by simp
  have xl: "x0 - a * x0 \<le> x" "x \<le> x0 + a * x0" using ax by (simp_all add: abs_le_iff) 
  have xpos: "0 < x" using xl(1) ax0 x0 by linarith
  have "2 powi emin \<le> \<bar>x\<bar>" using rng(1) xl(1) ax0 r(1) xpos by linarith
  moreover have "\<bar>x\<bar> \<le> 2 powi emax" using rng(2) xl(2) ax0 r(2) xpos by linarith
  ultimately obtain y where y: "fl_round p emin emax x = Some y"
    "\<bar>y - x\<bar> \<le> 2 powi (- int p) * \<bar>x\<bar>"
    using fl_round_normal [OF _ _ p(1)] by blast
  have "2 powi (- int p) * \<bar>x\<bar> \<le> 2 powi (- int p) * ((1 + 1 / 1000000) * x0)"
    using xl(2) ax0 xpos by (intro mult_left_mono) (simp_all add: algebra_simps)
  also have "\<dots> = (2 powi (- int p) * (1 + 1 / 1000000)) * x0" by simp
  also have "\<dots> \<le> e * x0" using p(2) x0 by (intro mult_right_mono) simp_all
  finally have "\<bar>y - x\<bar> \<le> e * x0" using y(2) by simp
  then have "\<bar>y - x0\<bar> \<le> (a + e) * x0"
    using ax by (simp add: algebra_simps abs_le_iff)
  with y(1) show ?thesis by blast
qed

lemma round32_step:
  assumes "\<bar>x - x0\<bar> \<le> a * x0" "1 / 1000000 \<le> x0" "x0 \<le> 1000000" "0 \<le> a" "a \<le> 1 / 1000000"
  shows "\<exists>y. round32 x = Some y \<and> \<bar>y - x0\<bar> \<le> (a + 6 / 100000000) * x0"
  unfolding round32_def using assms
  by (rule round_step) (simp_all add: power_int_minus)

lemma round64_step:
  assumes "\<bar>x - x0\<bar> \<le> a * x0" "1 / 1000000 \<le> x0" "x0 \<le> 1000000" "0 \<le> a" "a \<le> 1 / 1000000"
  shows "\<exists>y. round64 x = Some y \<and> \<bar>y - x0\<bar> \<le> (a + 1 / 1000000000000000) * x0"
  unfolding round64_def using assms
  by (rule round_step) (simp_all add: power_int_minus)

lemma approx_mult:
  fixes x y x0 y0 a b :: real
  assumes "\<bar>x - x0\<bar> \<le> a * x0" "\<bar>y - y0\<bar> \<le> b * y0" "0 \<le> x0" "0 \<le> y0" "0 \<le> a" "0 \<le> b"
  shows "\<bar>x * y - x0 * y0\<bar> \<le> (a + b + a * b) * (x0 * y0)"
proof -
  have "x * y - x0 * y0 = (x - x0) * y0 + x0 * (y - y0) + (x - x0) * (y - y0)"
    by (simp add: algebra_simps)
  then have "\<bar>x * y - x0 * y0\<bar> \<le> \<bar>(x - x0) * y0\<bar> + \<bar>x0 * (y - y0)\<bar> + \<bar>(x - x0) * (y - y0)\<bar>"
    by linarith
  also have "\<dots> = \<bar>x - x0\<bar> * y0 + x0 * \<bar>y - y0\<bar> + \<bar>x - x0\<bar> * \<bar>y - y0\<bar>"
    using assms(3,4) by (simp add: abs_mult)
  also have "\<dots> \<le> (a * x0) * y0 + x0 * (b * y0) + (a * x0) * (b * y0)"
    using assms by (intro add_mono mult_right_mono mult_left_mono mult_mono) simp_all
  also have "\<dots> = (a + b + a * b) * (x0 * y0)"
    by (simp add: algebra_simps)
  finally show ?thesis .
qed

lemma approx_inverse:
  fixes t t0 a b :: real
  assumes "\<bar>t - t0\<bar> \<le> a * t0" "0 < t0" "0 \<le> a" "a < 1" "a \<le> b * (1 - a)"
  shows "0 < t" and "\<bar>1 / t - 1 / t0\<bar> \<le> b * (1 / t0)"
proof -
  have lo: "t0 * (1 - a) \<le> t" using assms(1) by (simp add: abs_le_iff algebra_simps)
  have p: "0 < t0 * (1 - a)" using assms(2,4) by simp
  then show t: "0 < t" using lo by linarith
  have "1 / t - 1 / t0 = (t0 - t) / (t * t0)"
    using t assms(2) by (simp add: field_simps)
  then have "\<bar>1 / t - 1 / t0\<bar> = \<bar>t - t0\<bar> / (t * t0)"
    using t assms(2) by (simp add: abs_minus_commute)
  also have "\<dots> \<le> (a * t0) / (t * t0)"
    using assms(1) t assms(2) by (intro divide_right_mono) simp_all
  also have "\<dots> = a / t" using assms(2) by simp
  also have "\<dots> \<le> a / (t0 * (1 - a))"
    using lo p assms(3) by (intro divide_left_mono) simp_all
  also have "\<dots> \<le> (b * (1 - a)) / (t0 * (1 - a))"
    using assms(5) p by (intro divide_right_mono) simp_all
  also have "\<dots> = b * (1 / t0)" using assms(4) by simp
  finally show "\<bar>1 / t - 1 / t0\<bar> \<le> b * (1 / t0)" .
qed

lemma approx_weaken:
  fixes y x0 a b :: real
  shows "\<bar>y - x0\<bar> \<le> a * x0 \<Longrightarrow> a \<le> b \<Longrightarrow> 0 \<le> x0 \<Longrightarrow> \<bar>y - x0\<bar> \<le> b * x0"
  by (meson mult_right_mono order_trans)

lemma AAN_range:
  assumes "r < 8"
  shows "1 / 4 \<le> AANScaleFactor_float ! r" and "AANScaleFactor_float ! r \<le> 3 / 2"
proof -
  have "r = 0 \<or> r = 1 \<or> r = 2 \<or> r = 3 \<or> r = 4 \<or> r = 5 \<or> r = 6 \<or> r = 7"
    using assms by linarith
  then show "1 / 4 \<le> AANScaleFactor_float ! r" and "AANScaleFactor_float ! r \<le> 3 / 2"
    by (auto simp: AANScaleFactor_float_def)
qed

section \<open>Scaled float tables\<close>

lemma approx_div8:
  fixes y x0 a :: real
  assumes "\<bar>y - x0\<bar> \<le> a * x0"
  shows "\<bar>y / 8 - x0 / 8\<bar> \<le> a * (x0 / 8)"
proof -
  have "y / 8 - x0 / 8 = (y - x0) / 8" by simp
  then have "\<bar>y / 8 - x0 / 8\<bar> = \<bar>y - x0\<bar> / 8" by (simp only: abs_divide abs_numeral)
  also have "\<dots> \<le> (a * x0) / 8" using assms by (intro divide_right_mono) simp_all
  finally show ?thesis by simp
qed

lemma approx_mul8:
  fixes y x0 a :: real
  assumes "\<bar>y - x0\<bar> \<le> a * x0"
  shows "\<bar>y * 8 - x0 * 8\<bar> \<le> a * (x0 * 8)"
proof -
  have "y * 8 - x0 * 8 = (y - x0) * 8" by simp
  then have "\<bar>y * 8 - x0 * 8\<bar> = \<bar>y - x0\<bar> * 8" by (simp only: abs_mult abs_numeral)
  also have "\<dots> \<le> (a * x0) * 8" using assms by (intro mult_right_mono) simp_all
  finally show ?thesis by simp
qed

lemma scaled_entry_approx:
  fixes q q0 :: real
  assumes rc: "r < 8" "c < 8"
    and q0: "1 / 255 \<le> q0" "q0 \<le> 255"
    and q: "\<bar>q - q0\<bar> \<le> 6 / 100000000 * q0"
  defines "X0 \<equiv> AANScaleFactor_float ! r * AANScaleFactor_float ! c * q0"
  shows "\<exists>qi qf. scaled_entry q r c = Some (qi, qf) \<and>
           \<bar>qi - X0 / 8\<bar> \<le> 2 / 10000000 * (X0 / 8) \<and>
           \<bar>qf - 1 / (X0 * 8)\<bar> \<le> 2 / 10000000 * (1 / (X0 * 8))"
proof -
  define A where "A = AANScaleFactor_float ! r * AANScaleFactor_float ! c"
  have Ar: "1 / 16 \<le> A" "A \<le> 9 / 4"
  proof -
    have "1 / 4 * (1 / 4) \<le> AANScaleFactor_float ! r * AANScaleFactor_float ! c"
      using AAN_range [OF rc(1)] AAN_range [OF rc(2)] by (intro mult_mono) simp_all
    then show "1 / 16 \<le> A" by (simp add: A_def)
    have "AANScaleFactor_float ! r * AANScaleFactor_float ! c \<le> 3 / 2 * (3 / 2)"
      using AAN_range [OF rc(1)] AAN_range [OF rc(2)] by (intro mult_mono) simp_all
    then show "A \<le> 9 / 4" by (simp add: A_def)
  qed
  have X0: "X0 = A * q0" by (simp add: X0_def A_def)
  have Xr: "1 / 4080 \<le> X0" "X0 \<le> 2295 / 4"
  proof -
    have "1 / 16 * (1 / 255) \<le> A * q0" using Ar q0 by (intro mult_mono) simp_all
    then show "1 / 4080 \<le> X0" by (simp add: X0)
    have "A * q0 \<le> 9 / 4 * 255" using Ar q0 by (intro mult_mono) simp_all
    then show "X0 \<le> 2295 / 4" by (simp add: X0)
  qed
  have Xpos: "0 < X0" using Xr(1) by linarith
  \<comment> \<open>aans\<close>
  have "\<bar>A - A\<bar> \<le> 0 * A" by simp
  then obtain aans where aans: "round32 A = Some aans" "\<bar>aans - A\<bar> \<le> (0 + 6 / 100000000) * A"
    using Ar round32_step [of A A 0] by force
  \<comment> \<open>qaan\<close>
  have "\<bar>aans * q - A * q0\<bar> \<le> (6 / 100000000 + 6 / 100000000 + 6 / 100000000 * (6 / 100000000)) * (A * q0)"
    using aans(2) q Ar q0 by (intro approx_mult) simp_all
  then have p: "\<bar>aans * q - X0\<bar> \<le> 121 / 1000000000 * X0"
    unfolding X0 [symmetric] by (rule approx_weaken) (use Xpos in simp_all)
  obtain qaan where qaan: "round64 (aans * q) = Some qaan"
    "\<bar>qaan - X0\<bar> \<le> (121 / 1000000000 + 1 / 1000000000000000) * X0"
    using Xr round64_step [OF p] by force
  have qa: "\<bar>qaan - X0\<bar> \<le> 122 / 1000000000 * X0"
    using qaan(2) by (rule approx_weaken) (use Xpos in simp_all)
  \<comment> \<open>Qidct\<close>
  have "\<bar>qaan / 8 - X0 / 8\<bar> \<le> 122 / 1000000000 * (X0 / 8)"
    using qa by (rule approx_div8)
  then obtain d1 where d1: "round64 (qaan / 8) = Some d1"
    "\<bar>d1 - X0 / 8\<bar> \<le> (122 / 1000000000 + 1 / 1000000000000000) * (X0 / 8)"
    using Xr round64_step [of "qaan / 8" "X0 / 8" "122 / 1000000000"] by force
  have "\<bar>d1 - X0 / 8\<bar> \<le> 123 / 1000000000 * (X0 / 8)"
    using d1(2) by (rule approx_weaken) (use Xpos in simp_all)
  then obtain qi where qi: "round32 d1 = Some qi"
    "\<bar>qi - X0 / 8\<bar> \<le> (123 / 1000000000 + 6 / 100000000) * (X0 / 8)"
    using Xr round32_step [of d1 "X0 / 8" "123 / 1000000000"] by force
  have qi': "\<bar>qi - X0 / 8\<bar> \<le> 2 / 10000000 * (X0 / 8)"
    using qi(2) by (rule approx_weaken) (use Xpos in simp_all)
  \<comment> \<open>Qfdct\<close>
  have "\<bar>qaan * 8 - X0 * 8\<bar> \<le> 122 / 1000000000 * (X0 * 8)"
    using qa by (rule approx_mul8)
  then obtain t where t: "round64 (qaan * 8) = Some t"
    "\<bar>t - X0 * 8\<bar> \<le> (122 / 1000000000 + 1 / 1000000000000000) * (X0 * 8)"
    using Xr round64_step [of "qaan * 8" "X0 * 8" "122 / 1000000000"] by force
  have ta: "\<bar>t - X0 * 8\<bar> \<le> 123 / 1000000000 * (X0 * 8)"
    using t(2) by (rule approx_weaken) (use Xpos in simp_all)
  have X8: "0 < X0 * 8" using Xpos by simp
  have tpos: "0 < t" and ti: "\<bar>1 / t - 1 / (X0 * 8)\<bar> \<le> 124 / 1000000000 * (1 / (X0 * 8))"
    using approx_inverse [OF ta X8, of "124 / 1000000000"] by simp_all
  have ir: "1 / 1000000 \<le> 1 / (X0 * 8)" "1 / (X0 * 8) \<le> 1000000"
    using Xr Xpos by (simp_all add: field_simps)
  obtain d2 where d2: "round64 (1 / t) = Some d2"
    "\<bar>d2 - 1 / (X0 * 8)\<bar> \<le> (124 / 1000000000 + 1 / 1000000000000000) * (1 / (X0 * 8))"
    using ir round64_step [OF ti] by force
  have "\<bar>d2 - 1 / (X0 * 8)\<bar> \<le> 125 / 1000000000 * (1 / (X0 * 8))"
    using d2(2) by (rule approx_weaken) (use X8 in simp_all)
  then obtain qf where qf: "round32 d2 = Some qf"
    "\<bar>qf - 1 / (X0 * 8)\<bar> \<le> (125 / 1000000000 + 6 / 100000000) * (1 / (X0 * 8))"
    using ir round32_step [of d2 "1 / (X0 * 8)" "125 / 1000000000"] by force
  have qf': "\<bar>qf - 1 / (X0 * 8)\<bar> \<le> 2 / 10000000 * (1 / (X0 * 8))"
    using qf(2) by (rule approx_weaken) (use X8 in simp_all)
  have "scaled_entry q r c = Some (qi, qf)"
    using tpos by (simp add: scaled_entry_def A_def [symmetric] aans(1) qaan(1) d1(1) qi(1) t(1) d2(1) qf(1))
  with qi' qf' show ?thesis by blast
qed

lemma concat_rows_map:
  "concat (map (\<lambda>r. map (\<lambda>c. f r c) [0..<8]) [0..<8]) = map (\<lambda>i. f (i div 8) (i mod 8)) [0..<64]"
proof (rule nth_equalityI)
  have len: "length (concat (map (\<lambda>r. map (\<lambda>c. f r c) [0..<8]) [0..<8])) = 8 * 8"
    by (rule length_concat_chunks) simp
  then show "length (concat (map (\<lambda>r. map (\<lambda>c. f r c) [0..<8]) [0..<8])) =
      length (map (\<lambda>i. f (i div 8) (i mod 8)) [0..<64])" by simp
  fix i assume "i < length (concat (map (\<lambda>r. map (\<lambda>c. f r c) [0..<8]) [0..<8]))"
  then have i: "i < 8 * 8" using len by simp
  then have "concat (map (\<lambda>r. map (\<lambda>c. f r c) [0..<8]) [0..<8]) ! i = map (\<lambda>c. f (i div 8) c) [0..<8] ! (i mod 8)"
    by (intro nth_concat_chunks) simp_all
  then show "concat (map (\<lambda>r. map (\<lambda>c. f r c) [0..<8]) [0..<8]) ! i =
      map (\<lambda>i. f (i div 8) (i mod 8)) [0..<64] ! i"
    using i by simp
qed

lemma csf_entry:
  assumes "1 \<le> sint (Q ! 0)" "sint (Q ! 0) \<le> 255" "1 \<le> sint (Q ! i)" "sint (Q ! i) \<le> 255"
  shows "\<exists>q. fdiv32 (real_of_int (sint (Q ! 0))) (real_of_int (sint (Q ! i))) = Some q \<and>
             \<bar>q - csf_exact Q i\<bar> \<le> 6 / 100000000 * csf_exact Q i"
    and "1 / 255 \<le> csf_exact Q i" and "csf_exact Q i \<le> 255"
proof -
  define a b where "a = real_of_int (sint (Q ! 0))" and "b = real_of_int (sint (Q ! i))"
  have r: "1 \<le> a" "a \<le> 255" "1 \<le> b" "b \<le> 255"
    using assms unfolding a_def b_def by linarith+
  have lo: "1 / 255 \<le> a / b" using r by (simp add: field_simps)
  have hi: "a / b \<le> 255"
  proof -
    have "a / b \<le> a / 1" using r by (intro divide_left_mono) simp_all
    then show ?thesis using r by simp
  qed
  show "1 / 255 \<le> csf_exact Q i" "csf_exact Q i \<le> 255"
    using lo hi by (simp_all add: csf_exact_def a_def b_def)
  have "\<bar>a / b - a / b\<bar> \<le> 0 * (a / b)" by simp
  then obtain q where "round32 (a / b) = Some q" "\<bar>q - a / b\<bar> \<le> (0 + 6 / 100000000) * (a / b)"
    using lo hi round32_step [of "a / b" "a / b" 0] by force
  then show "\<exists>q. fdiv32 (real_of_int (sint (Q ! 0))) (real_of_int (sint (Q ! i))) = Some q \<and>
             \<bar>q - csf_exact Q i\<bar> \<le> 6 / 100000000 * csf_exact Q i"
    using r by (simp add: fdiv32_def csf_exact_def a_def b_def)
qed

lemma scale_f_entries:
  assumes Q: "\<forall>i<64. 1 \<le> sint (Q ! i) \<and> sint (Q ! i) \<le> 255"
  shows "\<exists>Qidct Qfdct. quantization_table_scale_f Q = Some (Qidct, Qfdct) \<and>
           length Qidct = 64 \<and> length Qfdct = 64 \<and>
           (\<forall>r<8. \<forall>c<8.
              \<bar>Qidct ! (r * 8 + c) - scaled_ref Q r c / 8\<bar> \<le> 2 / 10000000 * (scaled_ref Q r c / 8) \<and>
              \<bar>Qfdct ! (r * 8 + c) - 1 / (scaled_ref Q r c * 8)\<bar>
                 \<le> 2 / 10000000 * (1 / (scaled_ref Q r c * 8)) \<and>
              0 < scaled_ref Q r c)"
proof -
  let ?d = "\<lambda>i. fdiv32 (real_of_int (sint (Q ! 0))) (real_of_int (sint (Q ! i)))"
  have d: "\<exists>q. ?d i = Some q \<and> \<bar>q - csf_exact Q i\<bar> \<le> 6 / 100000000 * csf_exact Q i"
    and cr: "1 / 255 \<le> csf_exact Q i" "csf_exact Q i \<le> 255" if "i < 64" for i
    using csf_entry [of Q i] Q that by simp_all
  define csf where "csf = map (\<lambda>i. the (?d i)) [0..<64]"
  have "?d i \<noteq> None" if "i < 64" for i
    using d [OF that] by auto
  then have "those (map ?d [0..<64]) = Some csf"
    unfolding csf_def by (intro those_map_Some) simp
  then have c1: "csf_from_qtable Q = Some csf" by (simp add: csf_from_qtable_def)
  have cq: "\<bar>csf ! i - csf_exact Q i\<bar> \<le> 6 / 100000000 * csf_exact Q i" if "i < 64" for i
    using d [OF that] that by (auto simp: csf_def)
  let ?e = "\<lambda>i. scaled_entry (csf ! i) (i div 8) (i mod 8)"
  have e: "\<exists>qi qf. ?e i = Some (qi, qf) \<and>
      \<bar>qi - scaled_ref Q (i div 8) (i mod 8) / 8\<bar> \<le> 2 / 10000000 * (scaled_ref Q (i div 8) (i mod 8) / 8) \<and>
      \<bar>qf - 1 / (scaled_ref Q (i div 8) (i mod 8) * 8)\<bar>
         \<le> 2 / 10000000 * (1 / (scaled_ref Q (i div 8) (i mod 8) * 8))" if "i < 64" for i
  proof -
    have "i div 8 < 8" "i mod 8 < 8" "i div 8 * 8 + i mod 8 = i" using that by simp_all
    then show ?thesis
      using scaled_entry_approx [of "i div 8" "i mod 8" "csf_exact Q i" "csf ! i"] cr [OF that] cq [OF that]
      by (simp add: scaled_ref_def aan_stored_def)
  qed
  define es where "es = map (\<lambda>i. the (?e i)) [0..<64]"
  have "?e i \<noteq> None" if "i < 64" for i
    using e [OF that] by auto
  then have "those (map ?e [0..<64]) = Some es"
    unfolding es_def by (intro those_map_Some) simp
  moreover have "concat (map (\<lambda>r. map (\<lambda>c. let i = r * 8 + c; q = (case Some csf of None \<Rightarrow> 1 | Some t \<Rightarrow> t ! i)
      in scaled_entry q r c) [0..<8]) [0..<8]) = map ?e [0..<64]"
    unfolding concat_rows_map by (rule map_cong [OF refl]) (simp add: Let_def)
  ultimately have c2: "scaled_qtable_float (Some csf) = Some (map fst es, map snd es)"
    by (simp add: scaled_qtable_float_def)
  have res: "quantization_table_scale_f Q = Some (map fst es, map snd es)"
    by (simp add: quantization_table_scale_f_def c1 c2)
  have ent: "\<bar>map fst es ! (r * 8 + c) - scaled_ref Q r c / 8\<bar> \<le> 2 / 10000000 * (scaled_ref Q r c / 8) \<and>
      \<bar>map snd es ! (r * 8 + c) - 1 / (scaled_ref Q r c * 8)\<bar> \<le> 2 / 10000000 * (1 / (scaled_ref Q r c * 8)) \<and>
      0 < scaled_ref Q r c"
    if "r < 8" "c < 8" for r c
  proof -
    have i: "r * 8 + c < 64" "(r * 8 + c) div 8 = r" "(r * 8 + c) mod 8 = c" using that by simp_all
    have "0 < aan_stored r c"
      using AAN_range(1) [OF that(1)] AAN_range(1) [OF that(2)]
      by (simp add: aan_stored_def zero_less_mult_iff)
    moreover have "0 < csf_exact Q (r * 8 + c)" using cr(1) [OF i(1)] by linarith
    ultimately have "0 < scaled_ref Q r c" by (simp add: scaled_ref_def)
    then show ?thesis
      using e [OF i(1)] i by (auto simp: es_def)
  qed
  show ?thesis
    using res ent by (intro exI [of _ "map fst es"] exI [of _ "map snd es"]) (simp add: es_def)
qed

section \<open>Claims on the scaled float tables\<close>

lemma csf_table:
  assumes Q: "\<forall>i<64. 1 \<le> sint (Q ! i) \<and> sint (Q ! i) \<le> 255"
  shows "\<exists>csf. csf_from_qtable Q = Some csf \<and> length csf = 64 \<and>
           (\<forall>i<64. \<bar>csf ! i - csf_exact Q i\<bar> \<le> 6 / 100000000 * csf_exact Q i)"
proof -
  let ?d = "\<lambda>i. fdiv32 (real_of_int (sint (Q ! 0))) (real_of_int (sint (Q ! i)))"
  have d: "\<exists>q. ?d i = Some q \<and> \<bar>q - csf_exact Q i\<bar> \<le> 6 / 100000000 * csf_exact Q i"
    if "i < 64" for i
    using csf_entry(1) [of Q i] Q that by simp
  define csf where "csf = map (\<lambda>i. the (?d i)) [0..<64]"
  have "?d i \<noteq> None" if "i < 64" for i
    using d [OF that] by auto
  then have "those (map ?d [0..<64]) = Some csf"
    unfolding csf_def by (intro those_map_Some) simp
  then have "csf_from_qtable Q = Some csf" by (simp add: csf_from_qtable_def)
  moreover have "\<bar>csf ! i - csf_exact Q i\<bar> \<le> 6 / 100000000 * csf_exact Q i" if "i < 64" for i
    using d [OF that] that by (auto simp: csf_def)
  moreover have "length csf = 64" by (simp add: csf_def)
  ultimately show ?thesis by blast
qed

lemma scale_f_product:
  assumes Q: "\<forall>i<64. 1 \<le> sint (Q ! i) \<and> sint (Q ! i) \<le> 255"
  shows "\<exists>Qidct Qfdct. quantization_table_scale_f Q = Some (Qidct, Qfdct) \<and>
           (\<forall>i<64. \<bar>Qidct ! i * Qfdct ! i * 64 - 1\<bar> \<le> 1 / 1000000)"
proof -
  from scale_f_entries [OF Q] obtain Qidct Qfdct where
    res: "quantization_table_scale_f Q = Some (Qidct, Qfdct)"
    and ent: "\<forall>r<8. \<forall>c<8.
              \<bar>Qidct ! (r * 8 + c) - scaled_ref Q r c / 8\<bar> \<le> 2 / 10000000 * (scaled_ref Q r c / 8) \<and>
              \<bar>Qfdct ! (r * 8 + c) - 1 / (scaled_ref Q r c * 8)\<bar>
                 \<le> 2 / 10000000 * (1 / (scaled_ref Q r c * 8)) \<and>
              0 < scaled_ref Q r c"
    by blast
  have "\<bar>Qidct ! i * Qfdct ! i * 64 - 1\<bar> \<le> 1 / 1000000" if "i < 64" for i
  proof -
    define X where "X = scaled_ref Q (i div 8) (i mod 8)"
    have "i div 8 < 8" "i mod 8 < 8" "i div 8 * 8 + i mod 8 = i" using that by simp_all
    then have e: "\<bar>Qidct ! i - X / 8\<bar> \<le> 2 / 10000000 * (X / 8)"
      "\<bar>Qfdct ! i - 1 / (X * 8)\<bar> \<le> 2 / 10000000 * (1 / (X * 8))" "0 < X"
      using ent [rule_format, of "i div 8" "i mod 8"] by (simp_all add: X_def)
    have m: "\<bar>Qidct ! i * Qfdct ! i - X / 8 * (1 / (X * 8))\<bar>
        \<le> (2 / 10000000 + 2 / 10000000 + 2 / 10000000 * (2 / 10000000)) * (X / 8 * (1 / (X * 8)))"
      using e by (intro approx_mult) simp_all
    have x: "X / 8 * (1 / (X * 8)) = 1 / 64" using e(3) by simp
    have "\<bar>Qidct ! i * Qfdct ! i - 1 / 64\<bar>
        \<le> (2 / 10000000 + 2 / 10000000 + 2 / 10000000 * (2 / 10000000)) * (1 / 64)"
      using m unfolding x .
    then have "\<bar>Qidct ! i * Qfdct ! i - 1 / 64\<bar> \<le> 1 / 64000000"
      by simp
    then show ?thesis by linarith
  qed
  with res show ?thesis by blast
qed

lemma JPEGLumaQuant_range: "\<forall>i<64. 1 \<le> sint (JPEGLumaQuant ! i) \<and> sint (JPEGLumaQuant ! i) \<le> 255"
proof -
  have "\<forall>x \<in> set JPEGLumaQuant. 1 \<le> sint x \<and> sint x \<le> 255"
    by (simp add: JPEGLumaQuant_def)
  moreover have "length JPEGLumaQuant = 64" by (simp add: JPEGLumaQuant_def)
  ultimately show ?thesis by (simp add: all_set_conv_all_nth)
qed

lemma quantization_table_range:
  "\<forall>i<64. 1 \<le> sint (quantization_table Qbase quality ! i) \<and>
           sint (quantization_table Qbase quality ! i) \<le> 255"
  using quantization_table_bounds by blast

lemma luma50_0: "sint (quantization_table_luma 50 ! 0) = 16"
  by (simp add: quantization_table_luma_def JPEGLumaQuant_def quantization_table_def Let_def
      to16_def int_of16_def cdiv_def qmin_def qmax_def signed_divide_int_def word_sless_alt)

lemma approx_trans:
  fixes y x x0 a b :: real
  assumes "\<bar>y - x\<bar> \<le> a * x" "\<bar>x - x0\<bar> \<le> b * x0" "0 \<le> x0" "0 \<le> a"
  shows "\<bar>y - x0\<bar> \<le> (a + b + a * b) * x0"
proof -
  have "x \<le> x0 + b * x0" using assms(2) by (simp add: abs_le_iff)
  then have "a * x \<le> a * (x0 + b * x0)" using assms(4) by (intro mult_left_mono) simp_all
  then have "\<bar>y - x\<bar> \<le> a * x0 + a * b * x0" using assms(1) by (simp add: algebra_simps)
  moreover have "\<bar>y - x0\<bar> \<le> \<bar>y - x\<bar> + \<bar>x - x0\<bar>" by simp
  ultimately have "\<bar>y - x0\<bar> \<le> a * x0 + a * b * x0 + b * x0" using assms(2) by linarith
  then show ?thesis by (simp add: algebra_simps)
qed

lemma aan_stored_approx:
  assumes "r < 8" and "c < 8"
  shows "\<bar>aan_stored r c - aan_factor r c\<bar> \<le> 98 / 1000000000 * aan_factor r c"
    and "0 < aan_factor r c"
proof -
  have r: "r = 0 \<or> r = 1 \<or> r = 2 \<or> r = 3 \<or> r = 4 \<or> r = 5 \<or> r = 6 \<or> r = 7"
    using assms(1) by linarith
  have c: "c = 0 \<or> c = 1 \<or> c = 2 \<or> c = 3 \<or> c = 4 \<or> c = 5 \<or> c = 6 \<or> c = 7"
    using assms(2) by linarith
  show "\<bar>aan_stored r c - aan_factor r c\<bar> \<le> 98 / 1000000000 * aan_factor r c"
    using r c
    by (elim disjE; simp add: aan_stored_def aan_factor_def AANScaleFactor_float_def AAN_literals_def)
  show "0 < aan_factor r c"
    using r c
    by (elim disjE; simp add: aan_factor_def AAN_literals_def)
qed

lemma scaled_literal_approx:
  fixes qi qf q A A0 :: real
  assumes qi: "\<bar>qi - A * q / 8\<bar> \<le> 2 / 10000000 * (A * q / 8)"
    and qf: "\<bar>qf - 1 / (A * q * 8)\<bar> \<le> 2 / 10000000 * (1 / (A * q * 8))"
    and A: "\<bar>A - A0\<bar> \<le> 98 / 1000000000 * A0" and pos: "0 < A0" "0 < q"
  shows "\<bar>qi - q * A0 / 8\<bar> \<le> 3 / 10000000 * (q * A0 / 8)"
    and "\<bar>qf - 1 / (q * A0 * 8)\<bar> \<le> 3 / 10000000 * (1 / (q * A0 * 8))"
proof -
  define X X0 where "X = A * q" and "X0 = A0 * q"
  have X0: "0 < X0" using pos by (simp add: X0_def)
  have "\<bar>A - A0\<bar> * q \<le> 98 / 1000000000 * A0 * q"
    using A pos(2) by (intro mult_right_mono) simp_all
  moreover have "\<bar>A * q - A0 * q\<bar> = \<bar>A - A0\<bar> * q"
    using pos(2) by (simp add: abs_mult flip: left_diff_distrib)
  ultimately have X: "\<bar>X - X0\<bar> \<le> 98 / 1000000000 * X0"
    by (simp add: X_def X0_def)
  have "\<bar>X / 8 - X0 / 8\<bar> \<le> 98 / 1000000000 * (X0 / 8)"
    using X by (rule approx_div8)
  with qi have "\<bar>qi - X0 / 8\<bar>
      \<le> (2 / 10000000 + 98 / 1000000000 + 2 / 10000000 * (98 / 1000000000)) * (X0 / 8)"
    unfolding X_def [symmetric] by (intro approx_trans) (use X0 in simp_all)
  then have "\<bar>qi - X0 / 8\<bar> \<le> 3 / 10000000 * (X0 / 8)"
    by (rule approx_weaken) (use X0 in simp_all)
  then show "\<bar>qi - q * A0 / 8\<bar> \<le> 3 / 10000000 * (q * A0 / 8)"
    by (simp add: X0_def mult.commute)
  have "\<bar>X * 8 - X0 * 8\<bar> \<le> 98 / 1000000000 * (X0 * 8)"
    using X by (rule approx_mul8)
  moreover have X8: "0 < X0 * 8" using X0 by simp
  ultimately have "\<bar>1 / (X * 8) - 1 / (X0 * 8)\<bar> \<le> 99 / 1000000000 * (1 / (X0 * 8))"
    by (intro approx_inverse(2) [where a = "98 / 1000000000"]) simp_all
  with qf have "\<bar>qf - 1 / (X0 * 8)\<bar>
      \<le> (2 / 10000000 + 99 / 1000000000 + 2 / 10000000 * (99 / 1000000000)) * (1 / (X0 * 8))"
    unfolding X_def [symmetric] by (intro approx_trans) (use X8 in simp_all)
  then have "\<bar>qf - 1 / (X0 * 8)\<bar> \<le> 3 / 10000000 * (1 / (X0 * 8))"
    by (rule approx_weaken) (use X8 in simp_all)
  then show "\<bar>qf - 1 / (q * A0 * 8)\<bar> \<le> 3 / 10000000 * (1 / (q * A0 * 8))"
    by (simp add: X0_def mult.commute)
qed

text \<open>
  C3 (as amended). For every quality, for the luma and the chroma table \<open>Qbase\<close> of
  that quality and every position (r, c) of the 8x8 block, \<open>quantization_table_scale\<close>
  returns two tables of 64 floats in natural order, and with
  \<open>CSF[i] = Qbase[0] / Qbase[i]\<close> and \<open>AAN_factor[r * 8 + c] = AAN[r] * AAN[c]\<close>, the
  product of the AAN constants as the source writes them, the entry \<open>Qidct_f[i]\<close> is
  \<open>CSF[i] * AAN_factor[i] / 8\<close> and the entry \<open>Qfdct_f[i]\<close> is
  \<open>1 / (CSF[i] * AAN_factor[i] * 8)\<close>, each up to the rounding of the constants and of
  the float arithmetic, a relative error of at most 3e-7.
\<close>

theorem scaled_float_tables:
  assumes "Qbase = quantization_table_luma quality \<or> Qbase = quantization_table_chroma quality"
    and "r < 8" and "c < 8"
  shows "\<exists>Qidct Qfdct. quantization_table_scale_f Qbase = Some (Qidct, Qfdct) \<and>
           length Qidct = 64 \<and> length Qfdct = 64 \<and>
           \<bar>Qidct ! (r * 8 + c) - csf_exact Qbase (r * 8 + c) * aan_factor r c / 8\<bar>
              \<le> 3 / 10000000 * (csf_exact Qbase (r * 8 + c) * aan_factor r c / 8) \<and>
           \<bar>Qfdct ! (r * 8 + c) - 1 / (csf_exact Qbase (r * 8 + c) * aan_factor r c * 8)\<bar>
              \<le> 3 / 10000000 * (1 / (csf_exact Qbase (r * 8 + c) * aan_factor r c * 8))"
proof -
  have Q: "\<forall>i<64. 1 \<le> sint (Qbase ! i) \<and> sint (Qbase ! i) \<le> 255"
    using assms(1) quantization_table_range
    by (auto simp: quantization_table_luma_def quantization_table_chroma_def)
  from scale_f_entries [OF Q] obtain Qidct Qfdct where
    res: "quantization_table_scale_f Qbase = Some (Qidct, Qfdct)"
      "length Qidct = 64" "length Qfdct = 64"
    and ent: "\<forall>r<8. \<forall>c<8.
        \<bar>Qidct ! (r * 8 + c) - scaled_ref Qbase r c / 8\<bar> \<le> 2 / 10000000 * (scaled_ref Qbase r c / 8) \<and>
        \<bar>Qfdct ! (r * 8 + c) - 1 / (scaled_ref Qbase r c * 8)\<bar>
           \<le> 2 / 10000000 * (1 / (scaled_ref Qbase r c * 8)) \<and>
        0 < scaled_ref Qbase r c"
    by blast
  have i: "r * 8 + c < 64" using assms(2,3) by simp
  have q: "0 < csf_exact Qbase (r * 8 + c)"
    using csf_entry(2) [of Qbase "r * 8 + c"] Q i by force
  have e: "\<bar>Qidct ! (r * 8 + c) - aan_stored r c * csf_exact Qbase (r * 8 + c) / 8\<bar>
        \<le> 2 / 10000000 * (aan_stored r c * csf_exact Qbase (r * 8 + c) / 8)"
      "\<bar>Qfdct ! (r * 8 + c) - 1 / (aan_stored r c * csf_exact Qbase (r * 8 + c) * 8)\<bar>
        \<le> 2 / 10000000 * (1 / (aan_stored r c * csf_exact Qbase (r * 8 + c) * 8))"
    using ent [rule_format, OF assms(2,3)] by (simp_all add: scaled_ref_def)
  show ?thesis
    using res scaled_literal_approx [OF e aan_stored_approx [OF assms(2,3)] q] by blast
qed

theorem scaled_float_tables_witness:
  "(1 :: nat) < 8 \<and> (2 :: nat) < 8 \<and>
   (\<exists>Qidct Qfdct. quantization_table_scale_f (quantization_table_luma 75) = Some (Qidct, Qfdct) \<and>
      length Qidct = 64 \<and> length Qfdct = 64 \<and>
      \<bar>Qidct ! (1 * 8 + 2) - csf_exact (quantization_table_luma 75) (1 * 8 + 2) * aan_factor 1 2 / 8\<bar>
         \<le> 3 / 10000000 * (csf_exact (quantization_table_luma 75) (1 * 8 + 2) * aan_factor 1 2 / 8) \<and>
      \<bar>Qfdct ! (1 * 8 + 2) - 1 / (csf_exact (quantization_table_luma 75) (1 * 8 + 2) * aan_factor 1 2 * 8)\<bar>
         \<le> 3 / 10000000 * (1 / (csf_exact (quantization_table_luma 75) (1 * 8 + 2) * aan_factor 1 2 * 8)))"
  using scaled_float_tables [of "quantization_table_luma 75" 75 1 2] by simp

text \<open>
  The claim as stated, with \<open>Qbase[i]\<close> in the place of \<open>CSF[i]\<close>, fails: for the luma
  table of quality 50, whose entry 0 is 16, the claimed value of \<open>Qidct_f[0]\<close> is
  \<open>16 * 1 / 8 = 2\<close>, and the code stores \<open>(16 / 16) * 1 / 8 = 1 / 8\<close>.
\<close>

theorem scaled_float_tables_counterexample:
  "quantization_table_scale_f (quantization_table_luma 50) \<noteq> None \<and>
   \<bar>fst (the (quantization_table_scale_f (quantization_table_luma 50))) ! 0 - 1 / 8\<bar> \<le> 1 / 1000000 \<and>
   real_of_int (sint (quantization_table_luma 50 ! 0)) * aan_factor 0 0 / 8 = 2"
proof -
  have "\<forall>i<64. 1 \<le> sint (quantization_table_luma 50 ! i) \<and> sint (quantization_table_luma 50 ! i) \<le> 255"
    using quantization_table_range by (simp add: quantization_table_luma_def)
  from scale_f_entries [OF this] obtain Qidct Qfdct where
    res: "quantization_table_scale_f (quantization_table_luma 50) = Some (Qidct, Qfdct)"
    and ent: "\<forall>r<8. \<forall>c<8.
        \<bar>Qidct ! (r * 8 + c) - scaled_ref (quantization_table_luma 50) r c / 8\<bar>
           \<le> 2 / 10000000 * (scaled_ref (quantization_table_luma 50) r c / 8) \<and>
        \<bar>Qfdct ! (r * 8 + c) - 1 / (scaled_ref (quantization_table_luma 50) r c * 8)\<bar>
           \<le> 2 / 10000000 * (1 / (scaled_ref (quantization_table_luma 50) r c * 8)) \<and>
        0 < scaled_ref (quantization_table_luma 50) r c"
    by blast
  have a: "aan_factor 0 0 = 1" by (simp add: aan_factor_def AAN_literals_def)
  have s: "scaled_ref (quantization_table_luma 50) 0 0 = 1"
    by (simp add: scaled_ref_def aan_stored_def AANScaleFactor_float_def csf_exact_def luma50_0)
  have "\<bar>Qidct ! 0 - 1 / 8\<bar> \<le> 2 / 10000000 * (1 / 8)"
    using ent [rule_format, of 0 0] by (simp add: s)
  then have "\<bar>Qidct ! 0 - 1 / 8\<bar> \<le> 1 / 1000000" by linarith
  then show ?thesis by (simp add: res luma50_0 a)
qed

text \<open>
  C4 (as amended). For every 64-entry quantization table with entries in [1, 255] (the
  range of the entries that \<open>quantization_table\<close> produces) and every index \<open>i\<close>, the
  scaled float tables satisfy \<open>Qidct_f[i] * Qfdct_f[i] * 64 = 1\<close> to within 1e-5,
  whatever the value of \<open>CSF[i] = Q[0] / Q[i]\<close>.
\<close>

theorem scaled_float_product:
  assumes "length Q = 64" and "\<forall>i<64. 1 \<le> sint (Q ! i) \<and> sint (Q ! i) \<le> 255"
  shows "\<exists>Qidct Qfdct. quantization_table_scale_f Q = Some (Qidct, Qfdct) \<and>
           (\<forall>i<64. \<bar>Qidct ! i * Qfdct ! i * 64 - 1\<bar> \<le> 1 / 100000)"
proof -
  from scale_f_product [OF assms(2)] obtain Qidct Qfdct where
    "quantization_table_scale_f Q = Some (Qidct, Qfdct)"
    "\<forall>i<64. \<bar>Qidct ! i * Qfdct ! i * 64 - 1\<bar> \<le> 1 / 1000000"
    by blast
  moreover have "x \<le> 1 / 1000000 \<Longrightarrow> x \<le> 1 / 100000" for x :: real by simp
  ultimately show ?thesis by blast
qed

theorem scaled_float_product_witness:
  "\<exists>Qidct Qfdct. quantization_table_scale_f JPEGLumaQuant = Some (Qidct, Qfdct) \<and>
      \<bar>Qidct ! 1 * Qfdct ! 1 * 64 - 1\<bar> \<le> 1 / 100000"
proof -
  have "length JPEGLumaQuant = 64" by (simp add: JPEGLumaQuant_def)
  from scaled_float_product [OF this JPEGLumaQuant_range] show ?thesis by auto
qed

text \<open>
  The claim as stated, with \<open>CSF[i]\<close> as the value of the product, fails: for the JPEG
  luma base table and \<open>i = 1\<close>, \<open>CSF[1]\<close> is the float nearest to \<open>16 / 11\<close>, and the
  product times 64 is 1 to within 1e-6.
\<close>

theorem scaled_float_product_counterexample:
  "quantization_table_scale_f JPEGLumaQuant \<noteq> None \<and> csf_from_qtable JPEGLumaQuant \<noteq> None \<and>
   1 / 100000 < \<bar>fst (the (quantization_table_scale_f JPEGLumaQuant)) ! 1 *
                 snd (the (quantization_table_scale_f JPEGLumaQuant)) ! 1 * 64 -
                 the (csf_from_qtable JPEGLumaQuant) ! 1\<bar>"
proof -
  from scale_f_product [OF JPEGLumaQuant_range] obtain Qidct Qfdct where
    res: "quantization_table_scale_f JPEGLumaQuant = Some (Qidct, Qfdct)"
    and p: "\<forall>i<64. \<bar>Qidct ! i * Qfdct ! i * 64 - 1\<bar> \<le> 1 / 1000000"
    by blast
  from csf_table [OF JPEGLumaQuant_range] obtain csf where
    c: "csf_from_qtable JPEGLumaQuant = Some csf"
    and ce: "\<forall>i<64. \<bar>csf ! i - csf_exact JPEGLumaQuant i\<bar> \<le> 6 / 100000000 * csf_exact JPEGLumaQuant i"
    by blast
  have x: "csf_exact JPEGLumaQuant 1 = 16 / 11"
    by (simp add: csf_exact_def JPEGLumaQuant_def)
  have "\<bar>csf ! 1 - csf_exact JPEGLumaQuant 1\<bar> \<le> 6 / 100000000 * csf_exact JPEGLumaQuant 1"
    using ce [rule_format, of 1] by simp
  then have "\<bar>csf ! 1 - 16 / 11\<bar> \<le> 6 / 100000000 * (16 / 11)"
    unfolding x .
  moreover have "\<bar>Qidct ! 1 * Qfdct ! 1 * 64 - 1\<bar> \<le> 1 / 1000000"
    using p [rule_format, of 1] by simp
  ultimately have "1 / 100000 < \<bar>Qidct ! 1 * Qfdct ! 1 * 64 - csf ! 1\<bar>" by linarith
  then show ?thesis by (simp add: res c)
qed

section \<open>Claims on the image tiler\<close>

lemma tile_count_ok:
  "tile_count \<lparr>TileWidth = 4, TileHeight = 4, ImageWidth = 2, ImageHeight = 2, BorderSize = 1,
       BorderMode = 1, BorderColor = 7, Pixels = [1, 2, 3, 4]\<rparr> = Some (1, 1, 1)"
  by code_simp

text \<open>
  C9 (as amended). \<open>copy_tile\<close> returns false exactly when the index is not below the
  tile count that \<open>tile_count\<close> computes for the configuration, and in every such call
  all fields of the tile, its pixel buffer included, are left as they were. The tile
  dimensions are not compared with the border size.
\<close>

theorem copy_tile_failure:
  "copy_tile tile config index = Some (False, tile') \<longleftrightarrow>
     tile' = tile \<and>
     (\<exists>tiles_x tiles_y tiles_n. tile_count config = Some (tiles_x, tiles_y, tiles_n) \<and> tiles_n \<le> index)"
proof (cases "tile_count config")
  case None
  then show ?thesis by (simp add: copy_tile_def)
next
  case (Some r)
  obtain tiles_x tiles_y tiles_n where r: "r = (tiles_x, tiles_y, tiles_n)"
    by (cases r) auto
  show ?thesis
  proof (cases "tiles_n \<le> index")
    case True
    then show ?thesis using Some r by (auto simp: copy_tile_def)
  next
    case False
    have "copy_tile tile config index \<noteq> Some (False, tile')"
      using Some r False
      by (auto simp: copy_tile_def Let_def bind_eq_Some_conv split: prod.splits)
    then show ?thesis using Some r False by simp
  qed
qed

theorem copy_tile_failure_witness:
  "copy_tile
     \<lparr>SourceX = 0, SourceY = 0, SourceWidth = 0, SourceHeight = 0, TileX = 0, TileY = 0,
      TileIndex = 0, tTileWidth = 0, tTileHeight = 0, BytesPerRow = 0, BytesPerTile = 0,
      tPixels = replicate 16 0\<rparr>
     \<lparr>TileWidth = 4, TileHeight = 4, ImageWidth = 2, ImageHeight = 2, BorderSize = 1,
      BorderMode = 1, BorderColor = 7, Pixels = [1, 2, 3, 4]\<rparr> 1 =
   Some (False,
     \<lparr>SourceX = 0, SourceY = 0, SourceWidth = 0, SourceHeight = 0, TileX = 0, TileY = 0,
      TileIndex = 0, tTileWidth = 0, tTileHeight = 0, BytesPerRow = 0, BytesPerTile = 0,
      tPixels = replicate 16 0\<rparr>)"
  using tile_count_ok
    copy_tile_failure [of
     "\<lparr>SourceX = 0, SourceY = 0, SourceWidth = 0, SourceHeight = 0, TileX = 0, TileY = 0,
      TileIndex = 0, tTileWidth = 0, tTileHeight = 0, BytesPerRow = 0, BytesPerTile = 0,
      tPixels = replicate 16 0\<rparr>"
     "\<lparr>TileWidth = 4, TileHeight = 4, ImageWidth = 2, ImageHeight = 2, BorderSize = 1,
      BorderMode = 1, BorderColor = 7, Pixels = [1, 2, 3, 4]\<rparr>" 1
     "\<lparr>SourceX = 0, SourceY = 0, SourceWidth = 0, SourceHeight = 0, TileX = 0, TileY = 0,
      TileIndex = 0, tTileWidth = 0, tTileHeight = 0, BytesPerRow = 0, BytesPerTile = 0,
      tPixels = replicate 16 0\<rparr>"]
  by simp

text \<open>
  The claim as stated, which also has \<open>copy_tile\<close> return false when the tile
  dimensions are at most twice the border size, fails: for 2x2 tiles with a border of 2
  on a 1x1 image, \<open>TileWidth - 2 * BorderSize\<close> wraps to \<open>2^64 - 2\<close>, \<open>tile_count\<close>
  is 1, and index 0 passes the only test of \<open>copy_tile\<close>. The call then writes the
  left border and the image pixel of the first row into the tile and pads the row with
  \<open>2^64 - 3\<close> more pixels, past the end of the four pixels of the tile; it does not
  return false.
\<close>

theorem copy_tile_counterexample:
  "tile_count \<lparr>TileWidth = 2, TileHeight = 2, ImageWidth = 1, ImageHeight = 1, BorderSize = 2,
       BorderMode = 0, BorderColor = 0, Pixels = [1]\<rparr> = Some (1, 1, 1) \<and>
   copy_tile
     \<lparr>SourceX = 0, SourceY = 0, SourceWidth = 0, SourceHeight = 0, TileX = 0, TileY = 0,
      TileIndex = 0, tTileWidth = 0, tTileHeight = 0, BytesPerRow = 0, BytesPerTile = 0,
      tPixels = replicate 4 0\<rparr>
     \<lparr>TileWidth = 2, TileHeight = 2, ImageWidth = 1, ImageHeight = 1, BorderSize = 2,
      BorderMode = 0, BorderColor = 0, Pixels = [1]\<rparr> 0 \<noteq>
   Some (False,
     \<lparr>SourceX = 0, SourceY = 0, SourceWidth = 0, SourceHeight = 0, TileX = 0, TileY = 0,
      TileIndex = 0, tTileWidth = 0, tTileHeight = 0, BytesPerRow = 0, BytesPerTile = 0,
      tPixels = replicate 4 0\<rparr>)"
  by code_simp

end
